(* ===== verification/Prelude.thy ===== *)
theory Prelude
  imports Main "HOL-Library.Word"
begin

unbundle bit_operations_syntax

text \<open>
  Shared vocabulary of the development: the C types of the target (ARM, 32-bit \<open>int\<close>, \<open>long\<close>
  and pointers), the errno values the sources return, and the facts about bit fields of a
  32-bit word on which the mutex and condition-variable components rest.
\<close>

named_theorems errno_defs \<open>values of the errno constants\<close>
named_theorems field_defs \<open>definitions of the bit-field macros\<close>
named_theorems enc_simps \<open>what a bit-field macro computes on an encoded mutex word\<close>

section \<open>C types\<close>

text \<open>A C \<open>int\<close>, \<open>long\<close>, \<open>pid_t\<close> or \<open>int32_t\<close> is a 32-bit word; \<open>sint\<close> reads it as signed.\<close>

type_synonym cint = "32 word"

text \<open>An address is a 32-bit pointer; \<open>NULL\<close> is address 0.\<close>

type_synonym addr = "32 word"

abbreviation (input) NULL :: addr where
  "NULL \<equiv> 0"

text \<open>The errno values of the target's \<open>errno.h\<close>.\<close>

definition EPERM :: cint where [errno_defs]: "EPERM = 1"
definition EAGAIN :: cint where [errno_defs]: "EAGAIN = 11"
definition EBUSY :: cint where [errno_defs]: "EBUSY = 16"
definition EINVAL :: cint where [errno_defs]: "EINVAL = 22"
definition EDEADLK :: cint where [errno_defs]: "EDEADLK = 35"
definition ETIMEDOUT :: cint where [errno_defs]: "ETIMEDOUT = 110"

lemma errno_nonzero [simp]:
  "EPERM \<noteq> 0" "EAGAIN \<noteq> 0" "EBUSY \<noteq> 0" "EINVAL \<noteq> 0" "EDEADLK \<noteq> 0" "ETIMEDOUT \<noteq> 0"
  by (simp_all add: errno_defs)

section \<open>Words as numbers\<close>

lemma unat_less_2p32 [simp]: "unat (v :: 32 word) < 4294967296"
  using unsigned_less [of v] by simp

lemma word32_eqI: "unat v = unat w \<Longrightarrow> (v :: 32 word) = w"
  by (simp add: word_unat_eq_iff)

lemma unat_of_nat32: "n < 4294967296 \<Longrightarrow> unat (word_of_nat n :: 32 word) = n"
  by (simp add: unat_of_nat take_bit_eq_mod)

lemma word_field_and:
  fixes v :: "'a::len word"
  shows "v AND push_bit s (mask n) = push_bit s (take_bit n (drop_bit s v))"
  by (rule bit_eqI) (auto simp: bit_simps)

lemma unat_take_bit_mod: "unat (take_bit n v) = unat (v :: 32 word) mod 2 ^ n"
  by (metis take_bit_eq_mod unsigned_take_bit_eq)

lemma unat_drop_bit_div: "unat (drop_bit n v) = unat (v :: 32 word) div 2 ^ n"
  by (metis drop_bit_eq_div unat_drop_bit_eq)

lemma unat_push_bit_mult: "unat (push_bit n v) = unat (v :: 32 word) * 2 ^ n mod 2 ^ 32"
proof -
  have "unat (push_bit n v) = take_bit 32 (push_bit n (unat v))"
    by (simp add: unsigned_push_bit_eq)
  then show ?thesis by (simp only: take_bit_eq_mod push_bit_eq_mult)
qed

lemma unat_word_field:
  fixes v :: "32 word"
  assumes "s + n \<le> 32"
  shows "unat (v AND push_bit s (mask n)) = unat v div 2 ^ s mod 2 ^ n * 2 ^ s"
proof -
  have "unat v div 2 ^ s mod 2 ^ n * 2 ^ s < 2 ^ n * 2 ^ s"
    by simp
  also have "\<dots> \<le> 2 ^ 32"
    using assms by (metis add.commute one_le_numeral power_add power_increasing)
  finally have "unat v div 2 ^ s mod 2 ^ n * 2 ^ s mod 2 ^ 32 = unat v div 2 ^ s mod 2 ^ n * 2 ^ s"
    by (rule mod_less)
  then show ?thesis
    by (simp only: word_field_and unat_push_bit_mult unat_take_bit_mod unat_drop_bit_div)
qed

lemma push_bit_minus_1: "push_bit n 1 - 1 = (mask n :: 32 word)"
  by (simp add: mask_eq_exp_minus_1)

lemma unat_mask32:
  assumes "n \<le> 32"
  shows "unat (mask n :: 32 word) = 2 ^ n - 1"
proof -
  have "(mask n :: 32 word) = take_bit n (- 1)" by (simp add: take_bit_minus_one_eq_mask)
  then have "unat (mask n :: 32 word) = take_bit n (mask LENGTH(32) :: nat)"
    by (simp only: unsigned_take_bit_eq unsigned_minus_1_eq_mask)
  also have "\<dots> = mask n" unfolding take_bit_of_mask using assms by (simp add: min_def del: mask_numeral)
  finally show ?thesis by (simp only: mask_eq_exp_minus_1)
qed

section \<open>Words as signed numbers\<close>

lemma sint_range: "- 2147483648 \<le> sint (a :: cint)" "sint (a :: cint) < 2147483648"
  using sint_ge [of a] sint_lt [of a] by simp_all

lemma sint_of_unat: "unat (a :: cint) < 2147483648 \<Longrightarrow> sint a = int (unat a)"
proof -
  assume "unat a < 2147483648"
  moreover have e: "int (unat a) = uint a" by simp
  ultimately have "uint a < 2147483648" "- 2147483648 \<le> uint a" by linarith+
  then have u: "uint a < 2 ^ 31" "- (2 ^ 31) \<le> uint a" by simp_all
  show "sint a = int (unat a)"
    unfolding e using signed_take_bit_int_eq_self [OF u(2,1)] by (simp add: sint_uint)
qed

end
