(* ===== verification/Prog.thy ===== *)
theory Prog
  imports Prelude
begin

text \<open>
  The language in which the functions of \<^verbatim>\<open>libp4hread/bionic/pthread.c\<close> are written down here.
  A program is a tree of the accesses the C code makes to memory another thread can change, of its
  calls into the kernel and of its loop back-edges; everything between two accesses is ordinary
  HOL computation on the local variables. Theory \<open>Threads\<close> runs one call of one thread; the interleaving
  of several threads is in theory \<open>Interleave\<close>.
\<close>

section \<open>Time\<close>

record timespec =
  tv_sec :: cint
  tv_nsec :: cint

datatype clockid = CLOCK_REALTIME | CLOCK_MONOTONIC

section \<open>Programs\<close>

text \<open>
  The loop heads of the file, each with the local variables that are live there. A jump to a loop
  head is \<open>Call\<close> with the head, and \<open>loop_body\<close> (theory \<open>Threads\<close>) is the code found there.
\<close>

datatype label =
    L_normal_lock addr cint                        \<comment> \<open>mutex, shared\<close>
  | L_recursive_increment addr cint                \<comment> \<open>mutex, mvalue\<close>
  | L_mutex_lock addr cint cint cint cint          \<comment> \<open>mutex, tid, mtype, shared, mvalue\<close>
  | L_mutex_unlock addr cint                       \<comment> \<open>mutex, mvalue\<close>
  | L_timeout_normal addr cint timespec            \<comment> \<open>mutex, shared, abstime\<close>
  | L_timeout addr cint cint cint timespec cint    \<comment> \<open>mutex, tid, mtype, shared, abstime, mvalue\<close>
  | L_cond_pulse addr cint                         \<comment> \<open>cond, flags\<close>

datatype prog =
    Return cint
  | Load addr "cint \<Rightarrow> prog"
  | Store addr cint prog
  | Cmpxchg cint cint addr "cint \<Rightarrow> prog"               \<comment> \<open>\<open>__bionic_cmpxchg(old, new, ptr)\<close>\<close>
  | Swap cint addr "cint \<Rightarrow> prog"                        \<comment> \<open>\<open>__bionic_swap(new, ptr)\<close>\<close>
  | Atomic_dec addr "cint \<Rightarrow> prog"                       \<comment> \<open>\<open>__bionic_atomic_dec(ptr)\<close>\<close>
  | Futex_wait addr cint cint "timespec option" "cint \<Rightarrow> prog"
      \<comment> \<open>\<open>__futex_wait_ex(ftx, pshared, val, timeout)\<close>\<close>
  | Futex_wake addr cint cint "cint \<Rightarrow> prog"             \<comment> \<open>\<open>__futex_wake_ex(ftx, pshared, val)\<close>\<close>
  | Clock_gettime clockid "timespec \<Rightarrow> prog"
  | Get_tid "cint \<Rightarrow> prog"                               \<comment> \<open>\<open>__get_thread()->tid\<close>\<close>
  | Membar prog                                          \<comment> \<open>\<open>ANDROID_MEMBAR_FULL()\<close>\<close>
  | Call label "cint \<Rightarrow> prog"

text \<open>Sequencing: run a program, then continue with the value it returned.\<close>

primrec bind :: "prog \<Rightarrow> (cint \<Rightarrow> prog) \<Rightarrow> prog" where
  "bind (Return r) f = f r"
| "bind (Load a k) f = Load a (\<lambda>v. bind (k v) f)"
| "bind (Store a v p) f = Store a v (bind p f)"
| "bind (Cmpxchg old new a k) f = Cmpxchg old new a (\<lambda>v. bind (k v) f)"
| "bind (Swap new a k) f = Swap new a (\<lambda>v. bind (k v) f)"
| "bind (Atomic_dec a k) f = Atomic_dec a (\<lambda>v. bind (k v) f)"
| "bind (Futex_wait a sh v ts k) f = Futex_wait a sh v ts (\<lambda>v. bind (k v) f)"
| "bind (Futex_wake a sh n k) f = Futex_wake a sh n (\<lambda>v. bind (k v) f)"
| "bind (Clock_gettime c k) f = Clock_gettime c (\<lambda>v. bind (k v) f)"
| "bind (Get_tid k) f = Get_tid (\<lambda>v. bind (k v) f)"
| "bind (Membar p) f = Membar (bind p f)"
| "bind (Call l k) f = Call l (\<lambda>v. bind (k v) f)"

lemma bind_Return [simp]: "bind p Return = p"
  by (induction p) (simp_all add: fun_eq_iff)

lemma bind_assoc: "bind (bind p f) g = bind p (\<lambda>v. bind (f v) g)"
  by (induction p) (simp_all add: fun_eq_iff)

end
