(* ===== verification/Mutex_Word.thy ===== *)
theory Mutex_Word
  imports Prelude
begin

text \<open>
  The 32-bit mutex word of \<^verbatim>\<open>libp4hread/bionic/pthread.c\<close>: the bit-field macros as they are
  written there, and an arithmetic description (\<open>enc\<close>) of a word by its five fields, with what
  every macro computes on it.
\<close>

section \<open>The macros\<close>

text \<open>Shifts of an \<open>int\<close>: the compiler gives them the values of the two's complement, into and out of the sign bit
  too; a shift by the width of the word or more is undefined, and here nothing is known of its value.\<close>

definition shl :: "cint \<Rightarrow> nat \<Rightarrow> cint" where
  [field_defs]: "shl x n = (if n < 32 then push_bit n x else undefined)"

definition shr :: "cint \<Rightarrow> nat \<Rightarrow> cint" where
  [field_defs]: "shr x n = (if n < 32 then signed_drop_bit n x else undefined)"

definition FIELD_MASK :: "nat \<Rightarrow> nat \<Rightarrow> cint" where
  [field_defs]: "FIELD_MASK shift bits = shl (shl 1 bits - 1) shift"

definition FIELD_TO_BITS :: "cint \<Rightarrow> nat \<Rightarrow> nat \<Rightarrow> cint" where
  [field_defs]: "FIELD_TO_BITS val shift bits = shl (val AND (shl 1 bits - 1)) shift"

definition FIELD_FROM_BITS :: "cint \<Rightarrow> nat \<Rightarrow> nat \<Rightarrow> cint" where
  [field_defs]: "FIELD_FROM_BITS val shift bits = shr val shift AND (shl 1 bits - 1)"

definition MUTEX_STATE_SHIFT :: nat where [field_defs]: "MUTEX_STATE_SHIFT = 0"
definition MUTEX_STATE_LEN :: nat where [field_defs]: "MUTEX_STATE_LEN = 2"

definition MUTEX_STATE_MASK :: cint where
  [field_defs]: "MUTEX_STATE_MASK = FIELD_MASK MUTEX_STATE_SHIFT MUTEX_STATE_LEN"

definition MUTEX_STATE_FROM_BITS :: "cint \<Rightarrow> cint" where
  [field_defs]: "MUTEX_STATE_FROM_BITS v = FIELD_FROM_BITS v MUTEX_STATE_SHIFT MUTEX_STATE_LEN"

definition MUTEX_STATE_TO_BITS :: "cint \<Rightarrow> cint" where
  [field_defs]: "MUTEX_STATE_TO_BITS v = FIELD_TO_BITS v MUTEX_STATE_SHIFT MUTEX_STATE_LEN"

definition MUTEX_STATE_BITS_UNLOCKED :: cint where
  [field_defs]: "MUTEX_STATE_BITS_UNLOCKED = MUTEX_STATE_TO_BITS 0"

definition MUTEX_STATE_BITS_LOCKED_UNCONTENDED :: cint where
  [field_defs]: "MUTEX_STATE_BITS_LOCKED_UNCONTENDED = MUTEX_STATE_TO_BITS 1"

definition MUTEX_STATE_BITS_LOCKED_CONTENDED :: cint where
  [field_defs]: "MUTEX_STATE_BITS_LOCKED_CONTENDED = MUTEX_STATE_TO_BITS 2"

definition MUTEX_STATE_BITS_IS_LOCKED_UNCONTENDED :: "cint \<Rightarrow> bool" where
  [field_defs]: "MUTEX_STATE_BITS_IS_LOCKED_UNCONTENDED v \<longleftrightarrow>
    v AND MUTEX_STATE_MASK = MUTEX_STATE_BITS_LOCKED_UNCONTENDED"

definition MUTEX_STATE_BITS_IS_LOCKED_CONTENDED :: "cint \<Rightarrow> bool" where
  [field_defs]: "MUTEX_STATE_BITS_IS_LOCKED_CONTENDED v \<longleftrightarrow>
    v AND MUTEX_STATE_MASK = MUTEX_STATE_BITS_LOCKED_CONTENDED"

definition MUTEX_STATE_BITS_FLIP_CONTENTION :: "cint \<Rightarrow> cint" where
  [field_defs]: "MUTEX_STATE_BITS_FLIP_CONTENTION v =
    v XOR (MUTEX_STATE_BITS_LOCKED_CONTENDED XOR MUTEX_STATE_BITS_LOCKED_UNCONTENDED)"

definition MUTEX_COUNTER_SHIFT :: nat where [field_defs]: "MUTEX_COUNTER_SHIFT = 2"
definition MUTEX_COUNTER_LEN :: nat where [field_defs]: "MUTEX_COUNTER_LEN = 11"

definition MUTEX_COUNTER_MASK :: cint where
  [field_defs]: "MUTEX_COUNTER_MASK = FIELD_MASK MUTEX_COUNTER_SHIFT MUTEX_COUNTER_LEN"

definition MUTEX_COUNTER_BITS_WILL_OVERFLOW :: "cint \<Rightarrow> bool" where
  [field_defs]: "MUTEX_COUNTER_BITS_WILL_OVERFLOW v \<longleftrightarrow> v AND MUTEX_COUNTER_MASK = MUTEX_COUNTER_MASK"

definition MUTEX_COUNTER_BITS_IS_ZERO :: "cint \<Rightarrow> bool" where
  [field_defs]: "MUTEX_COUNTER_BITS_IS_ZERO v \<longleftrightarrow> v AND MUTEX_COUNTER_MASK = 0"

definition MUTEX_COUNTER_BITS_ONE :: cint where
  [field_defs]: "MUTEX_COUNTER_BITS_ONE = FIELD_TO_BITS 1 MUTEX_COUNTER_SHIFT MUTEX_COUNTER_LEN"

definition MUTEX_SHARED_SHIFT :: nat where [field_defs]: "MUTEX_SHARED_SHIFT = 13"

definition MUTEX_SHARED_MASK :: cint where
  [field_defs]: "MUTEX_SHARED_MASK = FIELD_MASK MUTEX_SHARED_SHIFT 1"

definition MUTEX_TYPE_SHIFT :: nat where [field_defs]: "MUTEX_TYPE_SHIFT = 14"
definition MUTEX_TYPE_LEN :: nat where [field_defs]: "MUTEX_TYPE_LEN = 2"

definition MUTEX_TYPE_MASK :: cint where
  [field_defs]: "MUTEX_TYPE_MASK = FIELD_MASK MUTEX_TYPE_SHIFT MUTEX_TYPE_LEN"

definition MUTEX_TYPE_TO_BITS :: "cint \<Rightarrow> cint" where
  [field_defs]: "MUTEX_TYPE_TO_BITS t = FIELD_TO_BITS t MUTEX_TYPE_SHIFT MUTEX_TYPE_LEN"

definition MUTEX_TYPE_BITS_NORMAL :: cint where
  [field_defs]: "MUTEX_TYPE_BITS_NORMAL = MUTEX_TYPE_TO_BITS 0"

definition MUTEX_TYPE_BITS_RECURSIVE :: cint where
  [field_defs]: "MUTEX_TYPE_BITS_RECURSIVE = MUTEX_TYPE_TO_BITS 1"

definition MUTEX_TYPE_BITS_ERRORCHECK :: cint where
  [field_defs]: "MUTEX_TYPE_BITS_ERRORCHECK = MUTEX_TYPE_TO_BITS 2"

definition MUTEX_OWNER_SHIFT :: nat where [field_defs]: "MUTEX_OWNER_SHIFT = 16"
definition MUTEX_OWNER_LEN :: nat where [field_defs]: "MUTEX_OWNER_LEN = 16"

definition MUTEX_OWNER_FROM_BITS :: "cint \<Rightarrow> cint" where
  [field_defs]: "MUTEX_OWNER_FROM_BITS v = FIELD_FROM_BITS v MUTEX_OWNER_SHIFT MUTEX_OWNER_LEN"

definition MUTEX_OWNER_TO_BITS :: "cint \<Rightarrow> cint" where
  [field_defs]: "MUTEX_OWNER_TO_BITS v = FIELD_TO_BITS v MUTEX_OWNER_SHIFT MUTEX_OWNER_LEN"

text \<open>The numeric values of the constant macros.\<close>

lemma field_masks:
  "MUTEX_STATE_MASK = 3" "MUTEX_COUNTER_MASK = 8188" "MUTEX_SHARED_MASK = 8192"
  "MUTEX_TYPE_MASK = 49152" "MUTEX_COUNTER_BITS_ONE = 4"
  "MUTEX_STATE_BITS_UNLOCKED = 0" "MUTEX_STATE_BITS_LOCKED_UNCONTENDED = 1"
  "MUTEX_STATE_BITS_LOCKED_CONTENDED = 2" "MUTEX_TYPE_BITS_NORMAL = 0"
  "MUTEX_TYPE_BITS_RECURSIVE = 16384" "MUTEX_TYPE_BITS_ERRORCHECK = 32768"
  by (simp_all add: field_defs)

section \<open>A word by its fields\<close>

text \<open>
  The layout comment of the source, as arithmetic: bits 31-16 the owner, 15-14 the type, 13 the
  process-shared flag, 12-2 the counter, 1-0 the state.
\<close>

definition enc :: "nat \<Rightarrow> nat \<Rightarrow> nat \<Rightarrow> nat \<Rightarrow> nat \<Rightarrow> cint" where
  "enc ow ty sh ct st = word_of_nat (ow * 65536 + ty * 16384 + sh * 8192 + ct * 4 + st)"

definition fields_ok :: "nat \<Rightarrow> nat \<Rightarrow> nat \<Rightarrow> nat \<Rightarrow> nat \<Rightarrow> bool" where
  "fields_ok ow ty sh ct st \<longleftrightarrow> ow < 65536 \<and> ty < 4 \<and> sh < 2 \<and> ct < 2048 \<and> st < 4"

lemma nat_field:
  assumes "N = (q * l + x) * m + r" "x < l" "r < m"
  shows "N div m mod l = (x :: nat)"
  using assms by simp

lemma layout:
  fixes ow ty sh ct st :: nat
  assumes "fields_ok ow ty sh ct st"
  defines "N \<equiv> ow * 65536 + ty * 16384 + sh * 8192 + ct * 4 + st"
  shows "N mod 4 = st" and "N div 4 mod 2048 = ct" and "N div 8192 mod 2 = sh"
    and "N div 16384 mod 4 = ty" and "N div 65536 = ow" and "N < 4294967296"
proof -
  have b: "ow < 65536" "ty < 4" "sh < 2" "ct < 2048" "st < 4"
    using assms by (simp_all add: fields_ok_def)
  show "N mod 4 = st"
    using b nat_field [of N "ow * 16384 + ty * 4096 + sh * 2048 + ct" 4 st 1 0] by (simp add: N_def)
  show "N div 4 mod 2048 = ct"
    using b by (intro nat_field [of N "ow * 8 + ty * 2 + sh" _ _ _ st]) (simp_all add: N_def)
  show "N div 8192 mod 2 = sh"
    using b by (intro nat_field [of N "ow * 4 + ty" _ _ _ "ct * 4 + st"]) (simp_all add: N_def)
  show "N div 16384 mod 4 = ty"
    using b by (intro nat_field [of N ow _ _ _ "sh * 8192 + ct * 4 + st"]) (simp_all add: N_def)
  have "N = ow * 65536 + (ty * 16384 + sh * 8192 + ct * 4 + st)"
    and "ty * 16384 + sh * 8192 + ct * 4 + st < 65536"
    using b by (simp_all add: N_def)
  then show "N div 65536 = ow" and "N < 4294967296"
    using b by simp_all
qed

lemma unat_enc:
  assumes "fields_ok ow ty sh ct st"
  shows "unat (enc ow ty sh ct st) = ow * 65536 + ty * 16384 + sh * 8192 + ct * 4 + st"
  unfolding enc_def by (rule unat_of_nat32) (rule layout (6) [OF assms])

lemma enc_field:
  fixes v :: cint
  assumes "s + n \<le> 32"
  shows "v AND push_bit s (mask n) = word_of_nat (unat v div 2 ^ s mod 2 ^ n * 2 ^ s)"
proof (rule word32_eqI)
  have "unat (v AND push_bit s (mask n)) < 4294967296" by (rule unat_less_2p32)
  then show "unat (v AND push_bit s (mask n)) =
    unat (word_of_nat (unat v div 2 ^ s mod 2 ^ n * 2 ^ s) :: cint)"
    unfolding unat_word_field [OF assms] by (simp only: unat_of_nat32)
qed

lemma mask_pushes:
  "(3 :: cint) = push_bit 0 (mask 2)" "(8188 :: cint) = push_bit 2 (mask 11)"
  "(8192 :: cint) = push_bit 13 (mask 1)" "(49152 :: cint) = push_bit 14 (mask 2)"
  by (simp_all add: mask_eq_exp_minus_1)

lemma enc_type [enc_simps]:
  "fields_ok ow ty sh ct st \<Longrightarrow> enc ow ty sh ct st AND MUTEX_TYPE_MASK = enc 0 ty 0 0 0"
  unfolding field_masks mask_pushes by (simp only: enc_field unat_enc layout) (simp_all add: layout enc_def)

lemma enc_shared [enc_simps]:
  "fields_ok ow ty sh ct st \<Longrightarrow> enc ow ty sh ct st AND MUTEX_SHARED_MASK = enc 0 0 sh 0 0"
  unfolding field_masks mask_pushes by (subst enc_field) (simp_all only: unat_enc, simp_all add: layout enc_def)

lemma enc_counter [enc_simps]:
  "fields_ok ow ty sh ct st \<Longrightarrow> enc ow ty sh ct st AND MUTEX_COUNTER_MASK = enc 0 0 0 ct 0"
  unfolding field_masks mask_pushes by (subst enc_field) (simp_all only: unat_enc, simp_all add: layout enc_def)

lemma enc_state [enc_simps]:
  "fields_ok ow ty sh ct st \<Longrightarrow> enc ow ty sh ct st AND MUTEX_STATE_MASK = enc 0 0 0 0 st"
  unfolding field_masks mask_pushes by (subst enc_field) (simp_all only: unat_enc, simp_all add: layout enc_def)

text \<open>The macros where the shifts are defined.\<close>

lemma field_macros:
  assumes "shift < 32" "bits < 32"
  shows "FIELD_MASK shift bits = push_bit shift (mask bits)"
    "FIELD_TO_BITS val shift bits = push_bit shift (val AND mask bits)"
    "FIELD_FROM_BITS val shift bits = signed_drop_bit shift val AND mask bits"
  using assms by (simp_all only: FIELD_MASK_def FIELD_TO_BITS_def FIELD_FROM_BITS_def shl_def shr_def if_True push_bit_minus_1)

lemma owner_macros:
  "MUTEX_OWNER_TO_BITS v = push_bit 16 (v AND mask 16)" "MUTEX_OWNER_FROM_BITS v = signed_drop_bit 16 v AND mask 16"
  by (simp_all add: MUTEX_OWNER_TO_BITS_def MUTEX_OWNER_FROM_BITS_def MUTEX_OWNER_SHIFT_def MUTEX_OWNER_LEN_def field_macros)

lemma owner_from_bits: "MUTEX_OWNER_FROM_BITS v = drop_bit 16 v"
  unfolding owner_macros
  by (rule bit_eqI) (auto simp: bit_simps dest: bit_imp_le_length)

lemma enc_owner:
  "fields_ok ow ty sh ct st \<Longrightarrow> MUTEX_OWNER_FROM_BITS (enc ow ty sh ct st) = word_of_nat ow"
proof (rule word32_eqI)
  assume ok: "fields_ok ow ty sh ct st"
  then have "ow < 65536" by (simp add: fields_ok_def)
  then show "unat (MUTEX_OWNER_FROM_BITS (enc ow ty sh ct st)) = unat (word_of_nat ow :: cint)"
    by (simp only: owner_from_bits unat_drop_bit_div unat_enc [OF ok]) (simp add: layout [OF ok] unat_of_nat32)
qed

lemma enc_inject:
  assumes "fields_ok ow ty sh ct st" "fields_ok ow' ty' sh' ct' st'"
  shows "enc ow ty sh ct st = enc ow' ty' sh' ct' st' \<longleftrightarrow>
    ow = ow' \<and> ty = ty' \<and> sh = sh' \<and> ct = ct' \<and> st = st'"
proof
  let ?N = "ow * 65536 + ty * 16384 + sh * 8192 + ct * 4 + st"
  let ?M = "ow' * 65536 + ty' * 16384 + sh' * 8192 + ct' * 4 + st'"
  assume "enc ow ty sh ct st = enc ow' ty' sh' ct' st'"
  then have eq: "?N = ?M" using unat_enc [OF assms(1)] unat_enc [OF assms(2)] by simp
  note fields = layout (1-5) [OF assms(1), symmetric, unfolded eq]
  show "ow = ow' \<and> ty = ty' \<and> sh = sh' \<and> ct = ct' \<and> st = st'"
    by (intro conjI; rule fields [THEN trans]) (rule layout [OF assms(2)])+
qed simp

lemma enc_add: "enc ow ty sh ct st + enc ow' ty' sh' ct' st' =
    enc (ow + ow') (ty + ty') (sh + sh') (ct + ct') (st + st')"
  unfolding enc_def of_nat_add [symmetric] by (rule arg_cong [where f = word_of_nat]) (simp add: algebra_simps)

lemma enc_consts:
  "MUTEX_STATE_BITS_UNLOCKED = enc 0 0 0 0 0" "MUTEX_STATE_BITS_LOCKED_UNCONTENDED = enc 0 0 0 0 (Suc 0)"
  "MUTEX_STATE_BITS_LOCKED_CONTENDED = enc 0 0 0 0 2" "MUTEX_COUNTER_BITS_ONE = enc 0 0 0 (Suc 0) 0"
  "MUTEX_TYPE_BITS_NORMAL = enc 0 0 0 0 0" "MUTEX_TYPE_BITS_RECURSIVE = enc 0 (Suc 0) 0 0 0"
  "MUTEX_TYPE_BITS_ERRORCHECK = enc 0 2 0 0 0" "MUTEX_SHARED_MASK = enc 0 0 (Suc 0) 0 0"
  "MUTEX_COUNTER_MASK = enc 0 0 0 2047 0" "(0 :: cint) = enc 0 0 0 0 0" "(1 :: cint) = enc 0 0 0 0 (Suc 0)"
  by (simp_all add: field_masks enc_def)

lemma and_disjoint:
  fixes x y :: cint
  assumes "unat x mod 2 ^ k = 0" "unat y < 2 ^ k"
  shows "x AND y = 0"
proof -
  have x: "take_bit k x = 0"
    by (rule word32_eqI) (simp add: unat_take_bit_mod assms(1))
  have y: "take_bit k y = y"
    by (rule word32_eqI) (simp add: unat_take_bit_mod assms(2))
  have "x AND y = x AND take_bit k y" by (simp add: y)
  also have "\<dots> = take_bit k x AND y" by (rule bit_eqI) (auto simp: bit_simps)
  finally show ?thesis by (simp add: x)
qed

lemma or_is_add:
  fixes x y :: cint
  assumes "unat x mod 2 ^ k = 0" "unat y < 2 ^ k"
  shows "x OR y = x + y"
  using and_disjoint [OF assms] by (rule disjunctive_add_eq_or [symmetric])

lemma or_state:
  assumes "fields_ok ow ty sh ct 0" "st < 4"
  shows "enc ow ty sh ct 0 OR enc 0 0 0 0 st = enc ow ty sh ct st"
proof -
  have st: "fields_ok 0 0 0 0 st" using assms(2) by (simp add: fields_ok_def)
  have "enc ow ty sh ct 0 OR enc 0 0 0 0 st = enc ow ty sh ct 0 + enc 0 0 0 0 st"
    by (rule or_is_add [where k = 2]) (simp_all only: unat_enc [OF assms(1)] unat_enc [OF st],
        use assms(2) in \<open>simp_all add: layout(1) [OF assms(1), simplified]\<close>)
  then show ?thesis by (simp add: enc_add)
qed

lemma or_type_shared:
  assumes "ty < 4" "sh < 2"
  shows "enc 0 ty 0 0 0 OR enc 0 0 sh 0 0 = enc 0 ty sh 0 0"
proof -
  have ok: "fields_ok 0 ty 0 0 0" "fields_ok 0 0 sh 0 0" using assms by (simp_all add: fields_ok_def)
  have "enc 0 ty 0 0 0 OR enc 0 0 sh 0 0 = enc 0 ty 0 0 0 + enc 0 0 sh 0 0"
    by (rule or_is_add [where k = 14]) (simp_all only: unat_enc [OF ok(1)] unat_enc [OF ok(2)],
        use assms in simp_all)
  then show ?thesis by (simp add: enc_add)
qed

lemma or_owner:
  assumes "ow < 65536" "ty < 4" "sh < 2" "st < 4"
  shows "enc ow 0 0 0 0 OR enc 0 ty sh 0 st = enc ow ty sh 0 st"
proof -
  have ok: "fields_ok ow 0 0 0 0" "fields_ok 0 ty sh 0 st" using assms by (simp_all add: fields_ok_def)
  have "enc ow 0 0 0 0 OR enc 0 ty sh 0 st = enc ow 0 0 0 0 + enc 0 ty sh 0 st"
    by (rule or_is_add [where k = 16]) (simp_all only: unat_enc [OF ok(1)] unat_enc [OF ok(2)],
        use assms in simp_all)
  then show ?thesis by (simp add: enc_add)
qed

lemma owner_to_bits:
  assumes "unat t < 65536"
  shows "MUTEX_OWNER_TO_BITS t = enc (unat t) 0 0 0 0"
proof -
  have "t AND mask 16 = t"
    by (rule word32_eqI)
       (simp only: take_bit_eq_mask [symmetric] unat_take_bit_mod, use assms in simp)
  then have "MUTEX_OWNER_TO_BITS t = push_bit 16 t"
    unfolding owner_macros by simp
  also have "\<dots> = enc (unat t) 0 0 0 0"
    by (simp add: push_bit_eq_mult enc_def mult.commute)
  finally show ?thesis .
qed

text \<open>The single-field updates the code makes by arithmetic on the whole word.\<close>

lemma enc_inc: "enc ow ty sh ct st + MUTEX_COUNTER_BITS_ONE = enc ow ty sh (Suc ct) st"
  unfolding enc_consts enc_add by simp

lemma enc_dec: "0 < ct \<Longrightarrow> enc ow ty sh ct st - MUTEX_COUNTER_BITS_ONE = enc ow ty sh (ct - 1) st"
  by (cases ct) (simp_all add: enc_inc [symmetric])

lemma enc_state_dec: "enc ow ty sh ct (Suc st) - 1 = enc ow ty sh ct st"
  using enc_add [of ow ty sh ct st 0 0 0 0 1] by (simp add: enc_consts(11) [symmetric] eq_diff_eq [symmetric])

lemma enc_flip [enc_simps]:
  assumes "fields_ok ow ty sh ct (Suc 0)"
  shows "MUTEX_STATE_BITS_FLIP_CONTENTION (enc ow ty sh ct (Suc 0)) = enc ow ty sh ct 2"
proof -
  let ?u = "enc ow ty sh ct 0"
  have ok: "fields_ok ow ty sh ct 0" using assms by (simp add: fields_ok_def)
  have e: "enc 0 0 0 0 (Suc 0) = 1" "enc 0 0 0 0 2 = 2" by (simp_all add: enc_def)
  have "unat ?u mod 2 ^ 2 = 0" using unat_enc [OF ok] layout(1) [OF ok] by simp
  then have d: "?u AND 1 = 0" "?u AND 2 = 0" by (rule and_disjoint; simp)+
  have "(?u OR 1) XOR 3 = ?u XOR (1 XOR 3)"
    using d(1) by (simp add: disjunctive_xor_eq_or [symmetric] xor.assoc)
  also have "\<dots> = ?u OR 2"
    using d(2) by (simp add: disjunctive_xor_eq_or)
  finally show ?thesis
    using or_state [OF ok, of 1] or_state [OF ok, of 2]
    by (simp add: MUTEX_STATE_BITS_FLIP_CONTENTION_def field_masks e)
qed

section \<open>The tests and constructions of the code on encoded words\<close>

lemma enc_type_tests [enc_simps]:
  assumes "ty < 4"
  shows "enc 0 ty 0 0 0 = MUTEX_TYPE_BITS_NORMAL \<longleftrightarrow> ty = 0"
    and "enc 0 ty 0 0 0 = MUTEX_TYPE_BITS_RECURSIVE \<longleftrightarrow> ty = Suc 0"
    and "enc 0 ty 0 0 0 = MUTEX_TYPE_BITS_ERRORCHECK \<longleftrightarrow> ty = 2"
  unfolding enc_consts using assms by (subst enc_inject; auto simp: fields_ok_def)+

lemma enc_state_tests [enc_simps]:
  assumes "fields_ok ow ty sh ct st"
  shows "MUTEX_STATE_BITS_IS_LOCKED_UNCONTENDED (enc ow ty sh ct st) \<longleftrightarrow> st = Suc 0"
    and "MUTEX_STATE_BITS_IS_LOCKED_CONTENDED (enc ow ty sh ct st) \<longleftrightarrow> st = 2"
  unfolding MUTEX_STATE_BITS_IS_LOCKED_UNCONTENDED_def MUTEX_STATE_BITS_IS_LOCKED_CONTENDED_def
    enc_state [OF assms] enc_consts
  using assms by (subst enc_inject; auto simp: fields_ok_def)+

lemma enc_counter_tests [enc_simps]:
  assumes "fields_ok ow ty sh ct st"
  shows "MUTEX_COUNTER_BITS_WILL_OVERFLOW (enc ow ty sh ct st) \<longleftrightarrow> ct = 2047"
    and "MUTEX_COUNTER_BITS_IS_ZERO (enc ow ty sh ct st) \<longleftrightarrow> ct = 0"
  unfolding MUTEX_COUNTER_BITS_WILL_OVERFLOW_def MUTEX_COUNTER_BITS_IS_ZERO_def
    enc_counter [OF assms]
  unfolding enc_consts using assms by (subst enc_inject; auto simp: fields_ok_def)+

lemma enc_owner_test [enc_simps]:
  assumes "fields_ok ow ty sh ct st"
  shows "t = MUTEX_OWNER_FROM_BITS (enc ow ty sh ct st) \<longleftrightarrow> unat t = ow"
proof -
  have "ow < 4294967296" using assms by (simp add: fields_ok_def)
  then show ?thesis unfolding enc_owner [OF assms] by (auto simp: unat_of_nat32)
qed

lemma enc_shared_states [enc_simps]:
  assumes "sh < 2"
  shows "enc 0 0 sh 0 0 OR MUTEX_STATE_BITS_UNLOCKED = enc 0 0 sh 0 0"
    and "enc 0 0 sh 0 0 OR MUTEX_STATE_BITS_LOCKED_UNCONTENDED = enc 0 0 sh 0 (Suc 0)"
    and "enc 0 0 sh 0 0 OR MUTEX_STATE_BITS_LOCKED_CONTENDED = enc 0 0 sh 0 2"
  unfolding enc_consts using assms by (subst or_state; simp add: fields_ok_def)+

lemma enc_type_shared [enc_simps]:
  "ty < 4 \<Longrightarrow> sh < 2 \<Longrightarrow> enc 0 ty 0 0 0 OR enc 0 0 sh 0 0 = enc 0 ty sh 0 0"
  by (rule or_type_shared)

lemma enc_acquire [enc_simps]:
  assumes "unat t < 65536" "ty < 4" "sh < 2"
  shows "MUTEX_OWNER_TO_BITS t OR enc 0 ty sh 0 0 OR MUTEX_STATE_BITS_LOCKED_UNCONTENDED =
      enc (unat t) ty sh 0 (Suc 0)"
    and "MUTEX_OWNER_TO_BITS t OR enc 0 ty sh 0 0 OR MUTEX_STATE_BITS_LOCKED_CONTENDED =
      enc (unat t) ty sh 0 2"
  unfolding owner_to_bits [OF assms(1)] enc_consts using assms
  by (subst or_state; simp add: fields_ok_def or_owner)+

lemmas enc_arith = enc_inc enc_dec enc_state_dec

section \<open>The macros as arithmetic\<close>

lemma field_from_bits_drop:
  assumes "s + n \<le> 32" "s < 32" "n < 32"
  shows "FIELD_FROM_BITS v s n = take_bit n (drop_bit s v)"
proof -
  have "FIELD_FROM_BITS v s n = take_bit n (signed_drop_bit s v)"
    using assms(2,3) by (simp add: field_macros take_bit_eq_mask)
  also have "\<dots> = take_bit n (drop_bit s v)"
    using assms by (intro bit_eqI) (auto simp: bit_simps bit_signed_drop_bit_iff)
  finally show ?thesis .
qed

lemma field_to_bits_push: "s < 32 \<Longrightarrow> n < 32 \<Longrightarrow> FIELD_TO_BITS v s n = push_bit s (take_bit n v)"
  by (simp add: field_macros take_bit_eq_mask)

text \<open>C38: the bit-field macros compute what their comments say, for every field that fits into a
  word and whose shift and width are below 32, where C defines the shifts: a
  mask is \<open>2\<^sup>n - 1\<close> shifted, storing and extracting are multiplication, division and remainder on unsigned
  numbers (although the macro shifts a signed word), extracting gives back what was stored, and storing
  touches no bit outside the field.\<close>

theorem field_macros_arith:
  assumes "s + n \<le> 32" "s < 32" "n < 32"
  shows "unat (FIELD_MASK s n) = (2 ^ n - 1) * 2 ^ s \<and>
    unat (FIELD_TO_BITS v s n) = unat v mod 2 ^ n * 2 ^ s \<and>
    unat (FIELD_FROM_BITS v s n) = unat v div 2 ^ s mod 2 ^ n \<and>
    unat (FIELD_FROM_BITS (FIELD_TO_BITS v s n) s n) = unat v mod 2 ^ n \<and>
    FIELD_TO_BITS v s n AND NOT (FIELD_MASK s n) = 0"
proof -
  have fits: "x * 2 ^ s < 2 ^ 32" if "x < 2 ^ n" for x :: nat
  proof -
    have "x * 2 ^ s < 2 ^ n * 2 ^ s" using that by simp
    also have "\<dots> \<le> 2 ^ 32" using assms by (metis add.commute one_le_numeral power_add power_increasing)
    finally show ?thesis .
  qed
  have mask: "unat (mask n :: cint) = 2 ^ n - 1"
    using assms by (simp add: unat_mask32)
  have "unat (FIELD_MASK s n) = (2 ^ n - 1) * 2 ^ s"
    using fits [of "2 ^ n - 1"] assms(2,3) by (simp add: field_macros unat_push_bit_mult mask)
  moreover have "unat (FIELD_TO_BITS v s n) = unat v mod 2 ^ n * 2 ^ s"
    using fits [of "unat v mod 2 ^ n"] assms(2,3) by (simp add: field_to_bits_push unat_push_bit_mult unat_take_bit_mod)
  moreover have "unat (FIELD_FROM_BITS v s n) = unat v div 2 ^ s mod 2 ^ n" for v
    by (simp add: field_from_bits_drop [OF assms] unat_take_bit_mod unat_drop_bit_div)
  moreover have "FIELD_TO_BITS v s n AND NOT (FIELD_MASK s n) = 0"
    unfolding field_to_bits_push [OF assms(2,3)] field_macros [OF assms(2,3)] by (rule bit_eqI) (auto simp: bit_simps)
  ultimately show ?thesis by simp
qed

lemma field_macros_arith_witness:
  "unat (FIELD_FROM_BITS (FIELD_TO_BITS 0xabcde 16 16) 16 16) = 0xbcde"
  using field_macros_arith [of 16 16 "0xabcde"] by simp

end
