(* ===== verification/Mutex.thy ===== *)
theory Mutex
  imports Prog Mutex_Word
begin

text \<open>
  The mutex functions of \<^verbatim>\<open>libp4hread/bionic/pthread.c\<close>, one definition per C function and one per
  loop, in the order of the file. A mutex is the address of its \<open>int volatile value\<close>, an attribute
  object the address of its \<open>long\<close>; \<open>NULL\<close> is address 0. The blocks under \<^verbatim>\<open>PTHREAD_DEBUG\<close> are
  compiled out and are not modelled.
\<close>

section \<open>Mutex attributes\<close>

definition PTHREAD_MUTEX_NORMAL :: cint where [field_defs]: "PTHREAD_MUTEX_NORMAL = 0"
definition PTHREAD_MUTEX_RECURSIVE :: cint where [field_defs]: "PTHREAD_MUTEX_RECURSIVE = 1"
definition PTHREAD_MUTEX_ERRORCHECK :: cint where [field_defs]: "PTHREAD_MUTEX_ERRORCHECK = 2"
definition PTHREAD_MUTEX_DEFAULT :: cint where [field_defs]: "PTHREAD_MUTEX_DEFAULT = PTHREAD_MUTEX_NORMAL"
definition PTHREAD_PROCESS_PRIVATE :: cint where [field_defs]: "PTHREAD_PROCESS_PRIVATE = 0"
definition PTHREAD_PROCESS_SHARED :: cint where [field_defs]: "PTHREAD_PROCESS_SHARED = 1"
definition MUTEXATTR_TYPE_MASK :: cint where [field_defs]: "MUTEXATTR_TYPE_MASK = 15"
definition MUTEXATTR_SHARED_MASK :: cint where [field_defs]: "MUTEXATTR_SHARED_MASK = 16"

definition pthread_mutexattr_init :: "addr \<Rightarrow> prog" where
  "pthread_mutexattr_init attr =
    (if attr \<noteq> NULL then Store attr PTHREAD_MUTEX_DEFAULT (Return 0) else Return EINVAL)"

definition pthread_mutexattr_destroy :: "addr \<Rightarrow> prog" where
  "pthread_mutexattr_destroy attr =
    (if attr \<noteq> NULL then Store attr (- 1) (Return 0) else Return EINVAL)"

definition pthread_mutexattr_gettype :: "addr \<Rightarrow> addr \<Rightarrow> prog" where
  "pthread_mutexattr_gettype attr type =
    (if attr \<noteq> NULL then
       Load attr (\<lambda>a. let atype = a AND MUTEXATTR_TYPE_MASK in
         if sint PTHREAD_MUTEX_NORMAL \<le> sint atype \<and> sint atype \<le> sint PTHREAD_MUTEX_ERRORCHECK
         then Store type atype (Return 0)
         else Return EINVAL)
     else Return EINVAL)"

definition pthread_mutexattr_settype :: "addr \<Rightarrow> cint \<Rightarrow> prog" where
  "pthread_mutexattr_settype attr type =
    (if attr \<noteq> NULL \<and> sint PTHREAD_MUTEX_NORMAL \<le> sint type \<and> sint type \<le> sint PTHREAD_MUTEX_ERRORCHECK
     then Load attr (\<lambda>a. Store attr ((a AND NOT MUTEXATTR_TYPE_MASK) OR type) (Return 0))
     else Return EINVAL)"

definition pthread_mutexattr_setpshared :: "addr \<Rightarrow> cint \<Rightarrow> prog" where
  "pthread_mutexattr_setpshared attr pshared =
    (if attr = NULL then Return EINVAL
     else if pshared = PTHREAD_PROCESS_PRIVATE then
       Load attr (\<lambda>a. Store attr (a AND NOT MUTEXATTR_SHARED_MASK) (Return 0))
     else if pshared = PTHREAD_PROCESS_SHARED then
       Load attr (\<lambda>a. Store attr (a OR MUTEXATTR_SHARED_MASK) (Return 0))
     else Return EINVAL)"

definition pthread_mutexattr_getpshared :: "addr \<Rightarrow> addr \<Rightarrow> prog" where
  "pthread_mutexattr_getpshared attr pshared =
    (if attr = NULL \<or> pshared = NULL then Return EINVAL
     else Load attr (\<lambda>a. Store pshared
       (if a AND MUTEXATTR_SHARED_MASK \<noteq> 0 then PTHREAD_PROCESS_SHARED else PTHREAD_PROCESS_PRIVATE)
       (Return 0)))"

definition pthread_mutex_init :: "addr \<Rightarrow> addr \<Rightarrow> prog" where
  "pthread_mutex_init mutex attr =
    (let value = 0 in
     if mutex = NULL then Return EINVAL
     else if attr = NULL then Store mutex MUTEX_TYPE_BITS_NORMAL (Return 0)
     else Load attr (\<lambda>a.
       let value = (if a AND MUTEXATTR_SHARED_MASK \<noteq> 0 then value OR MUTEX_SHARED_MASK else value) in
       Load attr (\<lambda>a.
         if a AND MUTEXATTR_TYPE_MASK = PTHREAD_MUTEX_NORMAL then
           Store mutex (value OR MUTEX_TYPE_BITS_NORMAL) (Return 0)
         else if a AND MUTEXATTR_TYPE_MASK = PTHREAD_MUTEX_RECURSIVE then
           Store mutex (value OR MUTEX_TYPE_BITS_RECURSIVE) (Return 0)
         else if a AND MUTEXATTR_TYPE_MASK = PTHREAD_MUTEX_ERRORCHECK then
           Store mutex (value OR MUTEX_TYPE_BITS_ERRORCHECK) (Return 0)
         else Return EINVAL)))"

section \<open>Normal mutexes\<close>

definition normal_lock :: "addr \<Rightarrow> cint \<Rightarrow> prog" where
  "normal_lock mutex shared =
    (let unlocked = shared OR MUTEX_STATE_BITS_UNLOCKED;
         locked_uncontended = shared OR MUTEX_STATE_BITS_LOCKED_UNCONTENDED in
     Cmpxchg unlocked locked_uncontended mutex (\<lambda>r.
       if r \<noteq> 0 then Call (L_normal_lock mutex shared) (\<lambda>_. Membar (Return 0))
       else Membar (Return 0)))"

text \<open>The \<open>while\<close> of \<open>_normal_lock\<close>.\<close>

definition normal_lock_loop :: "addr \<Rightarrow> cint \<Rightarrow> prog" where
  "normal_lock_loop mutex shared =
    (let unlocked = shared OR MUTEX_STATE_BITS_UNLOCKED;
         locked_contended = shared OR MUTEX_STATE_BITS_LOCKED_CONTENDED in
     Swap locked_contended mutex (\<lambda>prev.
       if prev \<noteq> unlocked then
         Futex_wait mutex shared locked_contended None (\<lambda>_. Call (L_normal_lock mutex shared) Return)
       else Return 0))"

definition normal_unlock :: "addr \<Rightarrow> cint \<Rightarrow> prog" where
  "normal_unlock mutex shared =
    Membar (Atomic_dec mutex (\<lambda>prev.
      if prev \<noteq> shared OR MUTEX_STATE_BITS_LOCKED_UNCONTENDED then
        Store mutex shared (Futex_wake mutex shared 1 (\<lambda>_. Return 0))
      else Return 0))"

section \<open>Recursive and error-checking mutexes\<close>

definition recursive_increment :: "addr \<Rightarrow> cint \<Rightarrow> cint \<Rightarrow> prog" where
  "recursive_increment mutex mvalue mtype =
    (if mtype = MUTEX_TYPE_BITS_ERRORCHECK then Return EDEADLK
     else if MUTEX_COUNTER_BITS_WILL_OVERFLOW mvalue then Return EAGAIN
     else Call (L_recursive_increment mutex mvalue) Return)"

definition recursive_increment_loop :: "addr \<Rightarrow> cint \<Rightarrow> prog" where
  "recursive_increment_loop mutex mvalue =
    (let newval = mvalue + MUTEX_COUNTER_BITS_ONE in
     Cmpxchg mvalue newval mutex (\<lambda>r.
       if r = 0 then Return 0
       else Load mutex (\<lambda>mvalue. Call (L_recursive_increment mutex mvalue) Return)))"

definition pthread_mutex_lock_impl :: "addr \<Rightarrow> prog" where
  "pthread_mutex_lock_impl mutex =
    (if mutex = NULL then Return EINVAL
     else Load mutex (\<lambda>mvalue.
       let mtype = mvalue AND MUTEX_TYPE_MASK; shared = mvalue AND MUTEX_SHARED_MASK in
       if mtype = MUTEX_TYPE_BITS_NORMAL then bind (normal_lock mutex shared) (\<lambda>_. Return 0)
       else Get_tid (\<lambda>tid.
         if tid = MUTEX_OWNER_FROM_BITS mvalue then recursive_increment mutex mvalue mtype
         else let mtype = mtype OR shared in
           if mvalue = mtype then
             (let newval = MUTEX_OWNER_TO_BITS tid OR mtype OR MUTEX_STATE_BITS_LOCKED_UNCONTENDED in
              Cmpxchg mvalue newval mutex (\<lambda>r.
                if r = 0 then Membar (Return 0)
                else Load mutex (\<lambda>mvalue. Call (L_mutex_lock mutex tid mtype shared mvalue) Return)))
           else Call (L_mutex_lock mutex tid mtype shared mvalue) Return)))"

text \<open>The \<open>for (;;)\<close> of \<open>pthread_mutex_lock_impl\<close>; \<open>mutex_lock_wait\<close> is its last two statements.\<close>

definition mutex_lock_wait :: "addr \<Rightarrow> cint \<Rightarrow> cint \<Rightarrow> cint \<Rightarrow> cint \<Rightarrow> prog" where
  "mutex_lock_wait mutex tid mtype shared mvalue =
    Futex_wait mutex shared mvalue None (\<lambda>_.
      Load mutex (\<lambda>mvalue. Call (L_mutex_lock mutex tid mtype shared mvalue) Return))"

definition mutex_lock_loop :: "addr \<Rightarrow> cint \<Rightarrow> cint \<Rightarrow> cint \<Rightarrow> cint \<Rightarrow> prog" where
  "mutex_lock_loop mutex tid mtype shared mvalue =
    (if mvalue = mtype then
       (let newval = MUTEX_OWNER_TO_BITS tid OR mtype OR MUTEX_STATE_BITS_LOCKED_CONTENDED in
        Cmpxchg mvalue newval mutex (\<lambda>r.
          if r \<noteq> 0 then Load mutex (\<lambda>mvalue. Call (L_mutex_lock mutex tid mtype shared mvalue) Return)
          else Membar (Return 0)))
     else if MUTEX_STATE_BITS_IS_LOCKED_UNCONTENDED mvalue then
       (let newval = MUTEX_STATE_BITS_FLIP_CONTENTION mvalue in
        Cmpxchg mvalue newval mutex (\<lambda>r.
          if r \<noteq> 0 then Load mutex (\<lambda>mvalue. Call (L_mutex_lock mutex tid mtype shared mvalue) Return)
          else mutex_lock_wait mutex tid mtype shared newval))
     else mutex_lock_wait mutex tid mtype shared mvalue)"

definition pthread_mutex_lock :: "addr \<Rightarrow> prog" where
  "pthread_mutex_lock mutex = bind (pthread_mutex_lock_impl mutex) (\<lambda>err. Return err)"

definition pthread_mutex_unlock_impl :: "addr \<Rightarrow> prog" where
  "pthread_mutex_unlock_impl mutex =
    (if mutex = NULL then Return EINVAL
     else Load mutex (\<lambda>mvalue.
       let mtype = mvalue AND MUTEX_TYPE_MASK; shared = mvalue AND MUTEX_SHARED_MASK in
       if mtype = MUTEX_TYPE_BITS_NORMAL then bind (normal_unlock mutex shared) (\<lambda>_. Return 0)
       else Get_tid (\<lambda>tid.
         if tid \<noteq> MUTEX_OWNER_FROM_BITS mvalue then Return EPERM
         else if \<not> MUTEX_COUNTER_BITS_IS_ZERO mvalue then Call (L_mutex_unlock mutex mvalue) Return
         else Membar (Swap (mtype OR shared OR MUTEX_STATE_BITS_UNLOCKED) mutex (\<lambda>mvalue.
           if MUTEX_STATE_BITS_IS_LOCKED_CONTENDED mvalue
           then Futex_wake mutex shared 1 (\<lambda>_. Return 0)
           else Return 0)))))"

definition mutex_unlock_loop :: "addr \<Rightarrow> cint \<Rightarrow> prog" where
  "mutex_unlock_loop mutex mvalue =
    (let newval = mvalue - MUTEX_COUNTER_BITS_ONE in
     Cmpxchg mvalue newval mutex (\<lambda>r.
       if r = 0 then Return 0
       else Load mutex (\<lambda>mvalue. Call (L_mutex_unlock mutex mvalue) Return)))"

definition pthread_mutex_unlock :: "addr \<Rightarrow> prog" where
  "pthread_mutex_unlock mutex = pthread_mutex_unlock_impl mutex"

definition pthread_mutex_trylock_impl :: "addr \<Rightarrow> prog" where
  "pthread_mutex_trylock_impl mutex =
    (if mutex = NULL then Return EINVAL
     else Load mutex (\<lambda>mvalue.
       let mtype = mvalue AND MUTEX_TYPE_MASK; shared = mvalue AND MUTEX_SHARED_MASK in
       if mtype = MUTEX_TYPE_BITS_NORMAL then
         Cmpxchg (shared OR MUTEX_STATE_BITS_UNLOCKED) (shared OR MUTEX_STATE_BITS_LOCKED_UNCONTENDED)
           mutex (\<lambda>r. if r = 0 then Membar (Return 0) else Return EBUSY)
       else Get_tid (\<lambda>tid.
         if tid = MUTEX_OWNER_FROM_BITS mvalue then recursive_increment mutex mvalue mtype
         else
           let mtype = mtype OR shared OR MUTEX_STATE_BITS_UNLOCKED;
               mvalue = MUTEX_OWNER_TO_BITS tid OR mtype OR MUTEX_STATE_BITS_LOCKED_UNCONTENDED in
           Cmpxchg mtype mvalue mutex (\<lambda>r. if r = 0 then Membar (Return 0) else Return EBUSY))))"

definition pthread_mutex_trylock :: "addr \<Rightarrow> prog" where
  "pthread_mutex_trylock mutex = bind (pthread_mutex_trylock_impl mutex) (\<lambda>err. Return err)"

section \<open>Timed locking\<close>

text \<open>
  \<open>__timespec_to_absolute\<close>: the clock is read into \<open>ts\<close>, which then becomes the time left until
  \<open>abstime\<close>; the result is the return value and the new \<open>ts\<close>. The arithmetic is that of 32-bit
  \<open>long\<close>s.
\<close>

definition timespec_left :: "timespec \<Rightarrow> timespec \<Rightarrow> cint \<times> timespec" where
  "timespec_left abstime ts =
    (let ts = \<lparr>tv_sec = tv_sec abstime - tv_sec ts, tv_nsec = tv_nsec abstime - tv_nsec ts\<rparr>;
         ts = (if sint (tv_nsec ts) < 0
               then \<lparr>tv_sec = tv_sec ts - 1, tv_nsec = tv_nsec ts + 1000000000\<rparr> else ts) in
     (if sint (tv_nsec ts) < 0 \<or> sint (tv_sec ts) < 0 then - 1 else 0, ts))"

definition timespec_to_absolute :: "timespec \<Rightarrow> clockid \<Rightarrow> (cint \<times> timespec \<Rightarrow> prog) \<Rightarrow> prog" where
  "timespec_to_absolute abstime clock k = Clock_gettime clock (\<lambda>ts. k (timespec_left abstime ts))"

text \<open>\<open>__timespec_to_relative_msec\<close>: the clock's time plus \<open>msecs\<close> (unsigned) milliseconds.\<close>

definition timespec_add_msec :: "timespec \<Rightarrow> cint \<Rightarrow> timespec" where
  "timespec_add_msec abstime msecs =
    (let abstime = \<lparr>tv_sec = tv_sec abstime + msecs div 1000,
                    tv_nsec = tv_nsec abstime + (msecs mod 1000) * 1000000\<rparr> in
     if sint (tv_nsec abstime) \<ge> 1000000000
     then \<lparr>tv_sec = tv_sec abstime + 1, tv_nsec = tv_nsec abstime - 1000000000\<rparr> else abstime)"

definition timespec_to_relative_msec :: "cint \<Rightarrow> clockid \<Rightarrow> (timespec \<Rightarrow> prog) \<Rightarrow> prog" where
  "timespec_to_relative_msec msecs clock k = Clock_gettime clock (\<lambda>ts. k (timespec_add_msec ts msecs))"

definition pthread_mutex_lock_timeout_np_impl :: "addr \<Rightarrow> cint \<Rightarrow> prog" where
  "pthread_mutex_lock_timeout_np_impl mutex msecs =
    timespec_to_relative_msec msecs CLOCK_MONOTONIC (\<lambda>abstime.
     if mutex = NULL then Return EINVAL
     else Load mutex (\<lambda>mvalue.
       let mtype = mvalue AND MUTEX_TYPE_MASK; shared = mvalue AND MUTEX_SHARED_MASK in
       if mtype = MUTEX_TYPE_BITS_NORMAL then
         (let unlocked = shared OR MUTEX_STATE_BITS_UNLOCKED;
              locked_uncontended = shared OR MUTEX_STATE_BITS_LOCKED_UNCONTENDED in
          Cmpxchg unlocked locked_uncontended mutex (\<lambda>r.
            if r = 0 then Membar (Return 0)
            else Call (L_timeout_normal mutex shared abstime) Return))
       else Get_tid (\<lambda>tid.
         if tid = MUTEX_OWNER_FROM_BITS mvalue then recursive_increment mutex mvalue mtype
         else let mtype = mtype OR shared in
           if mvalue = mtype then
             (let mvalue = MUTEX_OWNER_TO_BITS tid OR mtype OR MUTEX_STATE_BITS_LOCKED_UNCONTENDED in
              Cmpxchg mtype mvalue mutex (\<lambda>r.
                if r = 0 then Membar (Return 0)
                else Load mutex (\<lambda>mvalue. Call (L_timeout mutex tid mtype shared abstime mvalue) Return)))
           else Call (L_timeout mutex tid mtype shared abstime mvalue) Return)))"

text \<open>Its \<open>while\<close> on a normal mutex.\<close>

definition timeout_normal_loop :: "addr \<Rightarrow> cint \<Rightarrow> timespec \<Rightarrow> prog" where
  "timeout_normal_loop mutex shared abstime =
    (let unlocked = shared OR MUTEX_STATE_BITS_UNLOCKED;
         locked_contended = shared OR MUTEX_STATE_BITS_LOCKED_CONTENDED in
     Swap locked_contended mutex (\<lambda>prev.
       if prev \<noteq> unlocked then
         timespec_to_absolute abstime CLOCK_MONOTONIC (\<lambda>(rc, ts).
           if sint rc < 0 then Return EBUSY
           else Futex_wait mutex shared locked_contended (Some ts) (\<lambda>_.
             Call (L_timeout_normal mutex shared abstime) Return))
       else Membar (Return 0)))"

text \<open>Its \<open>for (;;)\<close>; \<open>timeout_wait\<close> is the part from the time check of the locked case on.\<close>

definition timeout_wait :: "addr \<Rightarrow> cint \<Rightarrow> cint \<Rightarrow> cint \<Rightarrow> timespec \<Rightarrow> cint \<Rightarrow> prog" where
  "timeout_wait mutex tid mtype shared abstime mvalue =
    timespec_to_absolute abstime CLOCK_MONOTONIC (\<lambda>(rc, ts).
      if sint rc < 0 then Return EBUSY
      else if MUTEX_STATE_BITS_IS_LOCKED_CONTENDED mvalue then
        Futex_wait mutex shared mvalue (Some ts) (\<lambda>status.
          if status = ETIMEDOUT then Return EBUSY
          else Load mutex (\<lambda>mvalue. Call (L_timeout mutex tid mtype shared abstime mvalue) Return))
      else Call (L_timeout mutex tid mtype shared abstime mvalue) Return)"

definition timeout_loop :: "addr \<Rightarrow> cint \<Rightarrow> cint \<Rightarrow> cint \<Rightarrow> timespec \<Rightarrow> cint \<Rightarrow> prog" where
  "timeout_loop mutex tid mtype shared abstime mvalue =
    (if mvalue = mtype then
       (let mvalue = MUTEX_OWNER_TO_BITS tid OR mtype OR MUTEX_STATE_BITS_LOCKED_CONTENDED in
        Cmpxchg mtype mvalue mutex (\<lambda>r.
          if r = 0 then Membar (Return 0)
          else timespec_to_absolute abstime CLOCK_MONOTONIC (\<lambda>(rc, ts).
            if sint rc < 0 then Return EBUSY
            else Load mutex (\<lambda>mvalue. Call (L_timeout mutex tid mtype shared abstime mvalue) Return))))
     else if MUTEX_STATE_BITS_IS_LOCKED_UNCONTENDED mvalue then
       (let newval = MUTEX_STATE_BITS_FLIP_CONTENTION mvalue in
        Cmpxchg mvalue newval mutex (\<lambda>r.
          if r \<noteq> 0 then Load mutex (\<lambda>mvalue. timeout_wait mutex tid mtype shared abstime mvalue)
          else timeout_wait mutex tid mtype shared abstime newval))
     else timeout_wait mutex tid mtype shared abstime mvalue)"

definition pthread_mutex_lock_timeout_np :: "addr \<Rightarrow> cint \<Rightarrow> prog" where
  "pthread_mutex_lock_timeout_np mutex msecs =
    bind (pthread_mutex_lock_timeout_np_impl mutex msecs) (\<lambda>err. Return err)"

definition pthread_mutex_destroy :: "addr \<Rightarrow> prog" where
  "pthread_mutex_destroy mutex =
    bind (pthread_mutex_trylock_impl mutex) (\<lambda>ret.
      if ret \<noteq> 0 then Return ret else Store mutex 0xdead10cc (Return 0))"

end
