(* ===== verification/Cond.thy ===== *)
theory Cond
  imports Mutex
begin

text \<open>
  The condition-variable functions of \<^verbatim>\<open>libp4hread/bionic/pthread.c\<close>. A condition variable is the
  address of its \<open>int volatile value\<close>: bit 0 is the process-shared flag, the rest a counter. A
  \<open>struct timespec *\<close> argument is an option, \<open>None\<close> for \<open>NULL\<close>.
\<close>

section \<open>Attributes\<close>

definition pthread_condattr_init :: "addr \<Rightarrow> prog" where
  "pthread_condattr_init attr =
    (if attr = NULL then Return EINVAL else Store attr PTHREAD_PROCESS_PRIVATE (Return 0))"

definition pthread_condattr_getpshared :: "addr \<Rightarrow> addr \<Rightarrow> prog" where
  "pthread_condattr_getpshared attr pshared =
    (if attr = NULL \<or> pshared = NULL then Return EINVAL
     else Load attr (\<lambda>a. Store pshared a (Return 0)))"

definition pthread_condattr_setpshared :: "addr \<Rightarrow> cint \<Rightarrow> prog" where
  "pthread_condattr_setpshared attr pshared =
    (if attr = NULL then Return EINVAL
     else if pshared \<noteq> PTHREAD_PROCESS_SHARED \<and> pshared \<noteq> PTHREAD_PROCESS_PRIVATE then Return EINVAL
     else Store attr pshared (Return 0))"

definition pthread_condattr_destroy :: "addr \<Rightarrow> prog" where
  "pthread_condattr_destroy attr =
    (if attr = NULL then Return EINVAL else Store attr 0xdeada11d (Return 0))"

section \<open>Condition variables\<close>

definition COND_SHARED_MASK :: cint where [field_defs]: "COND_SHARED_MASK = 1"
definition COND_COUNTER_INCREMENT :: cint where [field_defs]: "COND_COUNTER_INCREMENT = 2"
definition COND_COUNTER_MASK :: cint where [field_defs]: "COND_COUNTER_MASK = NOT COND_SHARED_MASK"

text \<open>\<open>COND_IS_SHARED(c)\<close> on a value loaded from \<open>c\<close>, as the C truth value it is passed on as.\<close>

definition COND_IS_SHARED :: "cint \<Rightarrow> cint" where
  [field_defs]: "COND_IS_SHARED value = (if value AND COND_SHARED_MASK \<noteq> 0 then 1 else 0)"

definition INT_MAX :: cint where "INT_MAX = 0x7fffffff"

definition pthread_cond_init :: "addr \<Rightarrow> addr \<Rightarrow> prog" where
  "pthread_cond_init cond attr =
    (if cond = NULL then Return EINVAL
     else Store cond 0
       (if attr \<noteq> NULL then
          Load attr (\<lambda>a.
            if a = PTHREAD_PROCESS_SHARED
            then Load cond (\<lambda>value. Store cond (value OR COND_SHARED_MASK) (Return 0))
            else Return 0)
        else Return 0))"

definition pthread_cond_destroy :: "addr \<Rightarrow> prog" where
  "pthread_cond_destroy cond =
    (if cond = NULL then Return EINVAL else Store cond 0xdeadc04d (Return 0))"

definition pthread_cond_pulse :: "addr \<Rightarrow> cint \<Rightarrow> prog" where
  "pthread_cond_pulse cond counter =
    (if cond = NULL then Return EINVAL
     else Load cond (\<lambda>value.
       let flags = value AND NOT COND_COUNTER_MASK in
       Call (L_cond_pulse cond flags) (\<lambda>_.
         Membar (Load cond (\<lambda>value.
           Futex_wake cond (COND_IS_SHARED value) counter (\<lambda>_. Return 0))))))"

text \<open>The \<open>for (;;)\<close> of \<open>__pthread_cond_pulse\<close>; \<open>pulse_value\<close> is the word it installs.\<close>

definition pulse_value :: "cint \<Rightarrow> cint \<Rightarrow> cint" where
  "pulse_value flags oldval = ((oldval - COND_COUNTER_INCREMENT) AND COND_COUNTER_MASK) OR flags"

definition cond_pulse_loop :: "addr \<Rightarrow> cint \<Rightarrow> prog" where
  "cond_pulse_loop cond flags =
    Load cond (\<lambda>oldval.
      let newval = pulse_value flags oldval in
      Cmpxchg oldval newval cond (\<lambda>r.
        if r = 0 then Return 0 else Call (L_cond_pulse cond flags) Return))"

definition pthread_cond_broadcast :: "addr \<Rightarrow> prog" where
  "pthread_cond_broadcast cond = pthread_cond_pulse cond INT_MAX"

definition pthread_cond_signal :: "addr \<Rightarrow> prog" where
  "pthread_cond_signal cond = pthread_cond_pulse cond 1"

text \<open>\<open>__pthread_cond_timedwait_relative\<close> and the public waiting functions.\<close>

definition cond_timedwait_relative :: "addr \<Rightarrow> addr \<Rightarrow> timespec option \<Rightarrow> prog" where
  "cond_timedwait_relative cond mutex reltime =
    Load cond (\<lambda>oldvalue.
      bind (pthread_mutex_unlock mutex) (\<lambda>_.
        Load cond (\<lambda>value.
          Futex_wait cond (COND_IS_SHARED value) oldvalue reltime (\<lambda>status.
            bind (pthread_mutex_lock mutex) (\<lambda>_.
              if status = - ETIMEDOUT then Return ETIMEDOUT else Return 0)))))"

text \<open>\<open>__pthread_cond_timedwait\<close>.\<close>

definition cond_timedwait_clock :: "addr \<Rightarrow> addr \<Rightarrow> timespec option \<Rightarrow> clockid \<Rightarrow> prog" where
  "cond_timedwait_clock cond mutex abstime clock =
    (case abstime of
       Some abstime \<Rightarrow> timespec_to_absolute abstime clock (\<lambda>(rc, ts).
         if sint rc < 0 then Return ETIMEDOUT
         else cond_timedwait_relative cond mutex (Some ts))
     | None \<Rightarrow> cond_timedwait_relative cond mutex None)"

definition pthread_cond_timedwait :: "addr \<Rightarrow> addr \<Rightarrow> timespec option \<Rightarrow> prog" where
  "pthread_cond_timedwait cond mutex abstime = cond_timedwait_clock cond mutex abstime CLOCK_REALTIME"

definition pthread_cond_wait :: "addr \<Rightarrow> addr \<Rightarrow> prog" where
  "pthread_cond_wait cond mutex = pthread_cond_timedwait cond mutex None"

definition pthread_cond_timedwait_monotonic :: "addr \<Rightarrow> addr \<Rightarrow> timespec option \<Rightarrow> prog" where
  "pthread_cond_timedwait_monotonic cond mutex abstime =
    cond_timedwait_clock cond mutex abstime CLOCK_MONOTONIC"

definition pthread_cond_timedwait_monotonic_np :: "addr \<Rightarrow> addr \<Rightarrow> timespec option \<Rightarrow> prog" where
  "pthread_cond_timedwait_monotonic_np cond mutex abstime =
    cond_timedwait_clock cond mutex abstime CLOCK_MONOTONIC"

definition pthread_cond_timedwait_relative_np :: "addr \<Rightarrow> addr \<Rightarrow> timespec option \<Rightarrow> prog" where
  "pthread_cond_timedwait_relative_np cond mutex reltime = cond_timedwait_relative cond mutex reltime"

definition pthread_cond_timeout_np :: "addr \<Rightarrow> addr \<Rightarrow> cint \<Rightarrow> prog" where
  "pthread_cond_timeout_np cond mutex msecs =
    (let ts = \<lparr>tv_sec = msecs div 1000, tv_nsec = (msecs mod 1000) * 1000000\<rparr> in
     cond_timedwait_relative cond mutex (Some ts))"

end
