(* ===== verification/Threads.thy ===== *)
theory Threads
  imports Cond
begin

text \<open>
  Running the programs: the code found at every loop head, and the execution of one call by one
  thread (\<open>exec\<close>). The kernel is a parameter: what \<open>__futex_wait_ex\<close> does is a function of the
  environment, which may also change memory while the caller sleeps.
\<close>

section \<open>The code at the loop heads\<close>

fun loop_body :: "label \<Rightarrow> prog" where
  "loop_body (L_normal_lock mutex shared) = normal_lock_loop mutex shared"
| "loop_body (L_recursive_increment mutex mvalue) = recursive_increment_loop mutex mvalue"
| "loop_body (L_mutex_lock mutex tid mtype shared mvalue) = mutex_lock_loop mutex tid mtype shared mvalue"
| "loop_body (L_mutex_unlock mutex mvalue) = mutex_unlock_loop mutex mvalue"
| "loop_body (L_timeout_normal mutex shared abstime) = timeout_normal_loop mutex shared abstime"
| "loop_body (L_timeout mutex tid mtype shared abstime mvalue) =
     timeout_loop mutex tid mtype shared abstime mvalue"
| "loop_body (L_cond_pulse cond flags) = cond_pulse_loop cond flags"

section \<open>One call of one thread\<close>

text \<open>
  Memory is a word at every address, \<open>wakes\<close> the log of the futex wake-ups issued, oldest first
  (address, shared flag, count), \<open>ticks\<close> the number of clock readings so far.
\<close>

record world =
  mem :: "addr \<Rightarrow> cint"
  wakes :: "(addr \<times> cint \<times> cint) list"
  ticks :: nat

text \<open>
  The environment of a call: the caller's thread id, the clock, and the kernel's futex calls. A
  wait returns a status and the world after it, or \<open>None\<close> when it never returns.
\<close>

record env =
  env_tid :: cint
  env_clock :: "clockid \<Rightarrow> nat \<Rightarrow> timespec"
  env_wait :: "world \<Rightarrow> addr \<Rightarrow> cint \<Rightarrow> timespec option \<Rightarrow> (cint \<times> world) option"
  env_wake :: "world \<Rightarrow> addr \<Rightarrow> cint \<Rightarrow> cint"

text \<open>
  The result of running a call: it returned, it sleeps in \<open>futex_wait\<close> for ever, it dereferenced
  \<open>NULL\<close>, or the number of steps given was too small.
\<close>

datatype outcome =
    Finished cint world
  | Blocked world
  | Fault
  | Out_of_fuel

fun exec :: "env \<Rightarrow> nat \<Rightarrow> prog \<Rightarrow> world \<Rightarrow> outcome" where
  "exec E 0 p w = Out_of_fuel"
| "exec E (Suc n) (Return r) w = Finished r w"
| "exec E (Suc n) (Load a k) w = (if a = NULL then Fault else exec E n (k (mem w a)) w)"
| "exec E (Suc n) (Store a v p) w =
     (if a = NULL then Fault else exec E n p (w\<lparr>mem := (mem w)(a := v)\<rparr>))"
| "exec E (Suc n) (Cmpxchg old new a k) w =
     (if a = NULL then Fault
      else if mem w a = old then exec E n (k 0) (w\<lparr>mem := (mem w)(a := new)\<rparr>)
      else exec E n (k 1) w)"
| "exec E (Suc n) (Swap new a k) w =
     (if a = NULL then Fault else exec E n (k (mem w a)) (w\<lparr>mem := (mem w)(a := new)\<rparr>))"
| "exec E (Suc n) (Atomic_dec a k) w =
     (if a = NULL then Fault else exec E n (k (mem w a)) (w\<lparr>mem := (mem w)(a := mem w a - 1)\<rparr>))"
| "exec E (Suc n) (Futex_wait a sh v ts k) w =
     (case env_wait E w a v ts of Some (r, w') \<Rightarrow> exec E n (k r) w' | None \<Rightarrow> Blocked w)"
| "exec E (Suc n) (Futex_wake a sh v k) w =
     exec E n (k (env_wake E w a v)) (w\<lparr>wakes := wakes w @ [(a, sh, v)]\<rparr>)"
| "exec E (Suc n) (Clock_gettime c k) w = exec E n (k (env_clock E c (ticks w))) (w\<lparr>ticks := Suc (ticks w)\<rparr>)"
| "exec E (Suc n) (Get_tid k) w = exec E n (k (env_tid E)) w"
| "exec E (Suc n) (Membar p) w = exec E n p w"
| "exec E (Suc n) (Call l k) w = exec E n (bind (loop_body l) k) w"

lemma exec_more_fuel:
  "exec E n p w = out \<Longrightarrow> out \<noteq> Out_of_fuel \<Longrightarrow> exec E (n + m) p w = out"
  by (induction E n p w rule: exec.induct) (auto split: option.splits if_splits)

text \<open>The same equations with the fuel written as a numeral, so that closed fuel computes.\<close>

lemmas exec_numeral [simp] =
  exec.simps(2-13) [where n = "pred_numeral k" for k, folded numeral_eq_Suc]

end
