(* ===== verification/Mutex_Spec.thy ===== *)
theory Mutex_Spec
  imports Threads
begin

text \<open>
  What a single call promises: an abstract mutex (kind, sharing, who holds it how often, whether
  somebody may be waiting), the abstract operations, and the proofs that the calls of
  \<^verbatim>\<open>pthread.c\<close>, run without interference, compute them on the encoded word.
\<close>

section \<open>The abstract mutex\<close>

datatype mkind = Normal | Recursive | Errorcheck

text \<open>\<open>Held t c w\<close>: held by thread \<open>t\<close> (0 on a normal mutex, which records no owner), locked \<open>c\<close>
  times beyond the first, \<open>w\<close> when there may be waiters.\<close>

datatype hold = Free | Held nat nat bool

record amutex =
  a_kind :: mkind
  a_shared :: bool
  a_hold :: hold

fun kind_bits :: "mkind \<Rightarrow> nat" where
  "kind_bits Normal = 0"
| "kind_bits Recursive = 1"
| "kind_bits Errorcheck = 2"

definition shbit :: "bool \<Rightarrow> nat" where
  "shbit s = (if s then 1 else 0)"

lemma shbit_less [simp]: "shbit s < 2"
  by (simp add: shbit_def)

fun encode_hold :: "nat \<Rightarrow> nat \<Rightarrow> hold \<Rightarrow> cint" where
  "encode_hold ty sh Free = enc 0 ty sh 0 0"
| "encode_hold ty sh (Held t c w) = enc t ty sh c (if w then 2 else 1)"

definition encode :: "amutex \<Rightarrow> cint" where
  "encode a = encode_hold (kind_bits (a_kind a)) (shbit (a_shared a)) (a_hold a)"

fun hold_ok :: "mkind \<Rightarrow> hold \<Rightarrow> bool" where
  "hold_ok k Free = True"
| "hold_ok Normal (Held t c w) = (t = 0 \<and> c = 0)"
| "hold_ok Recursive (Held t c w) = (0 < t \<and> t < 65536 \<and> c < 2048)"
| "hold_ok Errorcheck (Held t c w) = (0 < t \<and> t < 65536 \<and> c = 0)"

definition amutex_ok :: "amutex \<Rightarrow> bool" where
  "amutex_ok a \<longleftrightarrow> hold_ok (a_kind a) (a_hold a)"

text \<open>A thread id fits the owner field and is not the 0 that stands for no owner.\<close>

definition valid_tid :: "cint \<Rightarrow> bool" where
  "valid_tid t \<longleftrightarrow> 0 < unat t \<and> unat t < 65536"

section \<open>The abstract operations\<close>

text \<open>Locking again a mutex the caller holds \<open>c\<close> times beyond the first.\<close>

fun a_relock :: "mkind \<Rightarrow> nat \<Rightarrow> nat \<Rightarrow> bool \<Rightarrow> cint \<times> hold" where
  "a_relock Errorcheck t c w = (EDEADLK, Held t c w)"
| "a_relock k t c w = (if c = 2047 then (EAGAIN, Held t c w) else (0, Held t (Suc c) w))"

fun a_acquire :: "mkind \<Rightarrow> nat \<Rightarrow> hold" where
  "a_acquire Normal t = Held 0 0 False"
| "a_acquire k t = Held t 0 False"

definition a_trylock :: "nat \<Rightarrow> mkind \<Rightarrow> hold \<Rightarrow> cint \<times> hold" where
  "a_trylock t k h =
    (case h of
       Free \<Rightarrow> (0, a_acquire k t)
     | Held u c w \<Rightarrow> if k \<noteq> Normal \<and> u = t then a_relock k u c w else (EBUSY, h))"

text \<open>Unlocking: the result, the new holding and whether a waiter is woken.\<close>

definition a_unlock :: "nat \<Rightarrow> mkind \<Rightarrow> hold \<Rightarrow> cint \<times> hold \<times> bool" where
  "a_unlock t k h =
    (case h of
       Free \<Rightarrow> if k = Normal then (0, Free, True) else (EPERM, Free, False)
     | Held u c w \<Rightarrow>
         if k = Normal then (0, Free, w)
         else if u \<noteq> t then (EPERM, h, False)
         else if c > 0 then (0, Held u (c - 1) w, False)
         else (0, Free, w))"

text \<open>Locking: it returns, or it marks the mutex contended and sleeps.\<close>

datatype lock_result = Locks cint hold | Sleeps hold

definition a_lock :: "nat \<Rightarrow> mkind \<Rightarrow> hold \<Rightarrow> lock_result" where
  "a_lock t k h =
    (case h of
       Free \<Rightarrow> Locks 0 (a_acquire k t)
     | Held u c w \<Rightarrow>
         if k \<noteq> Normal \<and> u = t then (let (r, h') = a_relock k u c w in Locks r h')
         else Sleeps (Held u c True))"

section \<open>Refinement\<close>

abbreviation set_mutex :: "world \<Rightarrow> addr \<Rightarrow> cint \<Rightarrow> world" where
  "set_mutex w m v \<equiv> w\<lparr>mem := (mem w)(m := v)\<rparr>"

lemmas mutex_defs = pthread_mutex_trylock_def pthread_mutex_trylock_impl_def
  pthread_mutex_unlock_def pthread_mutex_unlock_impl_def pthread_mutex_lock_def
  pthread_mutex_lock_impl_def normal_lock_def normal_lock_loop_def normal_unlock_def
  recursive_increment_def recursive_increment_loop_def mutex_lock_loop_def mutex_lock_wait_def
  mutex_unlock_loop_def

text \<open>What the calls do on an encoded word; the refinements below only read these off.\<close>

lemma exec_trylock_normal:
  assumes "m \<noteq> NULL" "mem w m = enc 0 0 sh 0 st" "sh < 2" "st < 4"
  shows "exec E 8 (pthread_mutex_trylock m) w =
    (if st = 0 then Finished 0 (set_mutex w m (enc 0 0 sh 0 1)) else Finished EBUSY w)"
  using assms by (simp add: mutex_defs enc_simps enc_inject fields_ok_def Let_def)

lemma exec_trylock_owned:
  assumes "m \<noteq> NULL" "mem w m = enc ow ty sh ct st" "fields_ok ow ty sh ct st" "ty \<noteq> 0" "valid_tid (env_tid E)"
  shows "exec E 8 (pthread_mutex_trylock m) w =
    (if unat (env_tid E) = ow then
       if ty = 2 then Finished EDEADLK w
       else if ct = 2047 then Finished EAGAIN w
       else Finished 0 (set_mutex w m (enc ow ty sh (Suc ct) st))
     else if ow = 0 \<and> ct = 0 \<and> st = 0 then Finished 0 (set_mutex w m (enc (unat (env_tid E)) ty sh 0 1))
     else Finished EBUSY w)"
  using assms by (simp add: mutex_defs enc_simps enc_inject enc_arith fields_ok_def valid_tid_def Let_def)

lemma exec_unlock_normal:
  assumes "m \<noteq> NULL" "mem w m = enc 0 0 sh 0 st" "sh < 2" "st < 4"
  shows "exec E 8 (pthread_mutex_unlock m) w =
    (if st = 1 then Finished 0 (set_mutex w m (enc 0 0 sh 0 0))
     else Finished 0 (set_mutex w m (enc 0 0 sh 0 0)\<lparr>wakes := wakes w @ [(m, enc 0 0 sh 0 0, 1)]\<rparr>))"
proof (cases "st = 1")
  case True
  with assms show ?thesis
    by (simp add: mutex_defs enc_simps enc_inject enc_arith fields_ok_def Let_def)
next
  case False
  with assms show ?thesis
    by (simp add: mutex_defs enc_simps enc_inject fields_ok_def Let_def)
qed

lemma exec_unlock_owned:
  assumes "m \<noteq> NULL" "mem w m = enc ow ty sh ct st" "fields_ok ow ty sh ct st" "ty \<noteq> 0" "valid_tid (env_tid E)"
  shows "exec E 8 (pthread_mutex_unlock m) w =
    (if unat (env_tid E) \<noteq> ow then Finished EPERM w
     else if ct > 0 then Finished 0 (set_mutex w m (enc ow ty sh (ct - 1) st))
     else if st = 2 then
       Finished 0 (set_mutex w m (enc 0 ty sh 0 0)\<lparr>wakes := wakes w @ [(m, enc 0 0 sh 0 0, 1)]\<rparr>)
     else Finished 0 (set_mutex w m (enc 0 ty sh 0 0)))"
  using assms by (cases ct)
    (simp_all add: mutex_defs enc_simps enc_inject enc_arith fields_ok_def valid_tid_def Let_def)

text \<open>A kernel in which nobody else runs: a wait for another value than the current one returns \<open>-EAGAIN\<close> at once, and a
  wait on the current value without a timeout sleeps for ever. Nothing is said of waits with a timeout.\<close>

definition quiet_kernel :: "env \<Rightarrow> bool" where
  "quiet_kernel E \<longleftrightarrow>
    (\<forall>w a v ts. mem w a \<noteq> v \<longrightarrow> env_wait E w a v ts = Some (- EAGAIN, w)) \<and>
    (\<forall>w a. env_wait E w a (mem w a) None = None)"

lemma quiet_wait:
  assumes "quiet_kernel E"
  shows "env_wait E w a v None = (if mem w a = v then None else Some (- EAGAIN, w))"
    and "mem w a \<noteq> v \<Longrightarrow> env_wait E w a v ts = Some (- EAGAIN, w)"
  using assms unfolding quiet_kernel_def by auto

lemma exec_lock_normal:
  assumes "m \<noteq> NULL" "mem w m = enc 0 0 sh 0 st" "sh < 2" "st < 4" "st = 0 \<or> quiet_kernel E"
  shows "exec E 12 (pthread_mutex_lock m) w =
    (if st = 0 then Finished 0 (set_mutex w m (enc 0 0 sh 0 1))
     else Blocked (set_mutex w m (enc 0 0 sh 0 2)))"
  using assms by (auto simp: mutex_defs enc_simps enc_inject fields_ok_def quiet_wait(1) Let_def)

lemma exec_lock_owned:
  assumes "m \<noteq> NULL" "mem w m = enc ow ty sh ct st" "fields_ok ow ty sh ct st" "ty \<noteq> 0" "valid_tid (env_tid E)"
    and "unat (env_tid E) = ow \<or> ow = 0 \<and> ct = 0 \<and> st = 0 \<or> quiet_kernel E"
  shows "exec E 12 (pthread_mutex_lock m) w =
    (if unat (env_tid E) = ow then
       if ty = 2 then Finished EDEADLK w
       else if ct = 2047 then Finished EAGAIN w
       else Finished 0 (set_mutex w m (enc ow ty sh (Suc ct) st))
     else if ow = 0 \<and> ct = 0 \<and> st = 0 then Finished 0 (set_mutex w m (enc (unat (env_tid E)) ty sh 0 1))
     else Blocked (set_mutex w m (enc ow ty sh ct (if st = 1 then 2 else st))))"
  using assms(6)
proof (elim disjE)
  assume "quiet_kernel E"
  with assms(1-5) show ?thesis
    by (simp add: mutex_defs enc_simps enc_inject enc_arith fields_ok_def valid_tid_def quiet_wait(1) Let_def fun_upd_idem)
qed (use assms(1-5) in \<open>simp_all add: mutex_defs enc_simps enc_inject enc_arith fields_ok_def valid_tid_def Let_def\<close>)

text \<open>
  The shapes a well-formed abstract mutex has, with the encoded word and its field bounds: the case
  distinction of all refinement proofs.
\<close>

lemma amutex_cases [consumes 1, case_names normal_free normal_held owned_free owned_held]:
  assumes "amutex_ok a"
  obtains (normal_free) s where "a = \<lparr>a_kind = Normal, a_shared = s, a_hold = Free\<rparr>"
    | (normal_held) s b where "a = \<lparr>a_kind = Normal, a_shared = s, a_hold = Held 0 0 b\<rparr>"
    | (owned_free) k s where "a = \<lparr>a_kind = k, a_shared = s, a_hold = Free\<rparr>"
        "k = Recursive \<or> k = Errorcheck" "fields_ok 0 (kind_bits k) (shbit s) 0 0" "kind_bits k \<noteq> 0"
    | (owned_held) k s t c b where "a = \<lparr>a_kind = k, a_shared = s, a_hold = Held t c b\<rparr>"
        "k = Recursive \<or> k = Errorcheck" "fields_ok t (kind_bits k) (shbit s) c (if b then 2 else 1)"
        "kind_bits k \<noteq> 0" "t > 0"
  using assms by (cases a; cases "a_kind a"; cases "a_hold a") (auto simp: amutex_ok_def fields_ok_def)

lemma encode_simps [simp]:
  "encode \<lparr>a_kind = k, a_shared = s, a_hold = Free\<rparr> = enc 0 (kind_bits k) (shbit s) 0 0"
  "encode \<lparr>a_kind = k, a_shared = s, a_hold = Held t c b\<rparr> =
     enc t (kind_bits k) (shbit s) c (if b then 2 else 1)"
  by (simp_all add: encode_def)

lemma set_mutex_same: "mem w m = v \<Longrightarrow> set_mutex w m v = w"
  by (simp add: fun_upd_idem)

lemma enc_shared_flag: "enc 0 0 (shbit s) 0 0 = (if s then MUTEX_SHARED_MASK else 0)"
  by (simp add: enc_consts shbit_def)

lemmas refine_simps = a_trylock_def a_unlock_def a_lock_def enc_shared_flag set_mutex_same valid_tid_def

text \<open>A quiet environment, in which waits with a timeout time out, and a world with one word, for concrete runs.\<close>

definition quiet_env :: "cint \<Rightarrow> env" where
  "quiet_env t = \<lparr>env_tid = t, env_clock = (\<lambda>_ n. \<lparr>tv_sec = of_nat n, tv_nsec = 0\<rparr>),
     env_wait = (\<lambda>w a v ts. if mem w a \<noteq> v then Some (- EAGAIN, w) else map_option (\<lambda>_. (- ETIMEDOUT, w)) ts),
     env_wake = (\<lambda>_ _ _. 0)\<rparr>"

definition one_word :: "addr \<Rightarrow> cint \<Rightarrow> world" where
  "one_word a v = \<lparr>mem = (\<lambda>_. 0)(a := v), wakes = [], ticks = 0\<rparr>"

lemma quiet_env [simp]: "env_tid (quiet_env t) = t" "quiet_kernel (quiet_env t)"
  "env_clock (quiet_env t) c n = \<lparr>tv_sec = of_nat n, tv_nsec = 0\<rparr>"
  "env_wait (quiet_env t) w a v ts =
    (if mem w a \<noteq> v then Some (- EAGAIN, w) else map_option (\<lambda>_. (- ETIMEDOUT, w)) ts)"
  by (simp_all add: quiet_env_def quiet_kernel_def)

lemma one_word [simp]: "mem (one_word a v) a = v" "wakes (one_word a v) = []" "ticks (one_word a v) = 0"
  by (simp_all add: one_word_def)

lemmas witness_simps = amutex_ok_def valid_tid_def refine_simps

text \<open>C13: run alone, \<open>pthread_mutex_trylock\<close> computes the abstract trylock of every kind of mutex, on
  every branch: it acquires a free mutex, relocks a recursive one up to its limit (\<open>EAGAIN\<close>), reports
  \<open>EDEADLK\<close> on an error-checking one and \<open>EBUSY\<close> on another thread's; nothing else changes.\<close>

theorem trylock_refines:
  assumes "m \<noteq> NULL" "valid_tid (env_tid E)" "amutex_ok a" "mem w m = encode a"
    and "a_trylock (unat (env_tid E)) (a_kind a) (a_hold a) = (r, h)"
  shows "exec E 8 (pthread_mutex_trylock m) w = Finished r (set_mutex w m (encode (a\<lparr>a_hold := h\<rparr>)))"
  using assms(3)
proof (cases rule: amutex_cases)
  case (normal_free s)
  note run = exec_trylock_normal [OF assms(1), of w "shbit s" 0 E]
  show ?thesis using assms run by (auto simp: normal_free refine_simps)
next
  case (normal_held s b)
  note run = exec_trylock_normal [OF assms(1), of w "shbit s" "if b then 2 else 1" E]
  show ?thesis using assms run by (auto simp: normal_held refine_simps)
next
  case (owned_free k s)
  note run = exec_trylock_owned [OF assms(1) _ owned_free(3,4) assms(2)]
  show ?thesis using assms run owned_free(2) by (auto simp: owned_free(1) refine_simps)
next
  case (owned_held k s t c b)
  note run = exec_trylock_owned [OF assms(1) _ owned_held(3,4) assms(2)]
  show ?thesis using assms run owned_held(2,5) by (auto simp: owned_held(1) refine_simps split: if_splits)
qed

lemma trylock_refines_witness:
  "exec (quiet_env 7) 8 (pthread_mutex_trylock 4096)
      (one_word 4096 (encode \<lparr>a_kind = Recursive, a_shared = True, a_hold = Held 7 2 True\<rparr>)) =
    Finished 0 (set_mutex (one_word 4096 (encode \<lparr>a_kind = Recursive, a_shared = True, a_hold = Held 7 2 True\<rparr>))
      4096 (encode \<lparr>a_kind = Recursive, a_shared = True, a_hold = Held 7 3 True\<rparr>))"
  using trylock_refines [of 4096 "quiet_env 7" "\<lparr>a_kind = Recursive, a_shared = True, a_hold = Held 7 2 True\<rparr>"
    "one_word 4096 (encode \<lparr>a_kind = Recursive, a_shared = True, a_hold = Held 7 2 True\<rparr>)" 0 "Held 7 3 True"]
  by (simp add: witness_simps)

lemma exec_unlock:
  assumes "m \<noteq> NULL" "valid_tid (env_tid E)" "amutex_ok a" "mem w m = encode a"
    and "a_unlock (unat (env_tid E)) (a_kind a) (a_hold a) = (r, h, wake)"
  shows "exec E 8 (pthread_mutex_unlock m) w =
    Finished r (set_mutex w m (encode (a\<lparr>a_hold := h\<rparr>))
      \<lparr>wakes := wakes w @ (if wake then [(m, if a_shared a then MUTEX_SHARED_MASK else 0, 1)] else [])\<rparr>)"
  using assms(3)
proof (cases rule: amutex_cases)
  case (normal_free s)
  note run = exec_unlock_normal [OF assms(1), of w "shbit s" 0 E]
  show ?thesis using assms run by (auto simp: normal_free refine_simps)
next
  case (normal_held s b)
  note run = exec_unlock_normal [OF assms(1), of w "shbit s" "if b then 2 else 1" E]
  show ?thesis using assms run by (auto simp: normal_held refine_simps)
next
  case (owned_free k s)
  note run = exec_unlock_owned [OF assms(1) _ owned_free(3,4) assms(2)]
  show ?thesis using assms run owned_free(2) by (auto simp: owned_free(1) refine_simps)
next
  case (owned_held k s t c b)
  note run = exec_unlock_owned [OF assms(1) _ owned_held(3,4) assms(2)]
  show ?thesis using assms run owned_held(2,5) by (auto simp: owned_held(1) refine_simps split: if_splits)
qed

text \<open>C12: run alone, \<open>pthread_mutex_unlock\<close> computes the abstract unlock: \<open>EPERM\<close> for a thread that does
  not own a recursive or error-checking mutex, one level less on a relocked one, and a wake-up of one
  thread exactly when the released mutex was marked contended (or a normal mutex was not locked).\<close>

theorem unlock_refines:
  assumes "m \<noteq> NULL" "valid_tid (env_tid E)" "amutex_ok a" "mem w m = encode a"
    and "a_unlock (unat (env_tid E)) (a_kind a) (a_hold a) = (r, h, wake)"
  shows "exec E 8 (pthread_mutex_unlock m) w =
    Finished r (set_mutex w m (encode (a\<lparr>a_hold := h\<rparr>))
      \<lparr>wakes := wakes w @ (if wake then [(m, if a_shared a then MUTEX_SHARED_MASK else 0, 1)] else [])\<rparr>)"
  using assms by (rule exec_unlock)

lemma unlock_refines_witness:
  "exec (quiet_env 7) 8 (pthread_mutex_unlock 4096)
      (one_word 4096 (encode \<lparr>a_kind = Errorcheck, a_shared = False, a_hold = Held 7 0 True\<rparr>)) =
    Finished 0 (set_mutex (one_word 4096 (encode \<lparr>a_kind = Errorcheck, a_shared = False, a_hold = Held 7 0 True\<rparr>))
      4096 (encode \<lparr>a_kind = Errorcheck, a_shared = False, a_hold = Free\<rparr>)\<lparr>wakes := [(4096, 0, 1)]\<rparr>)"
  using unlock_refines [of 4096 "quiet_env 7" "\<lparr>a_kind = Errorcheck, a_shared = False, a_hold = Held 7 0 True\<rparr>"
    "one_word 4096 (encode \<lparr>a_kind = Errorcheck, a_shared = False, a_hold = Held 7 0 True\<rparr>)" 0 Free True]
  by (simp add: witness_simps)

text \<open>The kernel matters only when the lock has to wait.\<close>

lemma exec_lock:
  assumes "m \<noteq> NULL" "valid_tid (env_tid E)" "amutex_ok a" "mem w m = encode a"
    and "(\<exists>r h. a_lock (unat (env_tid E)) (a_kind a) (a_hold a) = Locks r h) \<or> quiet_kernel E"
  shows "exec E 12 (pthread_mutex_lock m) w =
    (case a_lock (unat (env_tid E)) (a_kind a) (a_hold a) of
       Locks r h \<Rightarrow> Finished r (set_mutex w m (encode (a\<lparr>a_hold := h\<rparr>)))
     | Sleeps h \<Rightarrow> Blocked (set_mutex w m (encode (a\<lparr>a_hold := h\<rparr>))))"
  using assms(3)
proof (cases rule: amutex_cases)
  case (normal_free s)
  note run = exec_lock_normal [OF assms(1), of w "shbit s" 0 E]
  show ?thesis using assms run by (auto simp: normal_free refine_simps)
next
  case (normal_held s b)
  note run = exec_lock_normal [OF assms(1), of w "shbit s" "if b then 2 else 1" E]
  show ?thesis using assms run by (auto simp: normal_held refine_simps)
next
  case (owned_free k s)
  note run = exec_lock_owned [OF assms(1) _ owned_free(3,4) assms(2)]
  show ?thesis using assms run owned_free(2) by (auto simp: owned_free(1) refine_simps)
next
  case (owned_held k s t c b)
  note run = exec_lock_owned [OF assms(1) _ owned_held(3,4) assms(2)]
  show ?thesis using assms run owned_held(2,5) by (auto simp: owned_held(1) refine_simps split: if_splits)
qed

text \<open>C11: run alone, \<open>pthread_mutex_lock\<close> either returns what the abstract lock returns or goes to sleep,
  and it sleeps exactly when another thread holds the mutex (or, on a normal mutex, anyone), having
  marked it contended first.\<close>

theorem lock_refines:
  assumes "m \<noteq> NULL" "valid_tid (env_tid E)" "amutex_ok a" "mem w m = encode a" "quiet_kernel E"
  shows "exec E 12 (pthread_mutex_lock m) w =
    (case a_lock (unat (env_tid E)) (a_kind a) (a_hold a) of
       Locks r h \<Rightarrow> Finished r (set_mutex w m (encode (a\<lparr>a_hold := h\<rparr>)))
     | Sleeps h \<Rightarrow> Blocked (set_mutex w m (encode (a\<lparr>a_hold := h\<rparr>))))"
  by (rule exec_lock) (use assms in simp_all)

lemma lock_refines_witness:
  "exec (quiet_env 7) 12 (pthread_mutex_lock 4096)
      (one_word 4096 (encode \<lparr>a_kind = Recursive, a_shared = False, a_hold = Held 9 1 False\<rparr>)) =
    Blocked (set_mutex (one_word 4096 (encode \<lparr>a_kind = Recursive, a_shared = False, a_hold = Held 9 1 False\<rparr>))
      4096 (encode \<lparr>a_kind = Recursive, a_shared = False, a_hold = Held 9 1 True\<rparr>))"
  using lock_refines [of 4096 "quiet_env 7" "\<lparr>a_kind = Recursive, a_shared = False, a_hold = Held 9 1 False\<rparr>"
    "one_word 4096 (encode \<lparr>a_kind = Recursive, a_shared = False, a_hold = Held 9 1 False\<rparr>)"]
  by (simp add: witness_simps)

end
