(* ===== verification/Futex.thy ===== *)
theory Futex
  imports Cond
begin

text \<open>
  The kernel's futex, on which threads sleep: the two wrappers of \<^verbatim>\<open>libp4hread/bionic/pthread.c\<close>, which choose
  between the operations for shared and for private words, and the kernel itself as a parameter with its
  documented contract.
\<close>

section \<open>The wrappers\<close>

text \<open>The operations of the kernel's \<^verbatim>\<open>futex.h\<close>.\<close>

definition FUTEX_WAIT :: cint where "FUTEX_WAIT = 0"
definition FUTEX_WAKE :: cint where "FUTEX_WAKE = 1"
definition FUTEX_PRIVATE_FLAG :: cint where "FUTEX_PRIVATE_FLAG = 128"
definition FUTEX_WAIT_PRIVATE :: cint where "FUTEX_WAIT_PRIVATE = FUTEX_WAIT OR FUTEX_PRIVATE_FLAG"
definition FUTEX_WAKE_PRIVATE :: cint where "FUTEX_WAKE_PRIVATE = FUTEX_WAKE OR FUTEX_PRIVATE_FLAG"

text \<open>The system calls are arguments of the wrappers.\<close>

definition futex_wake_ex :: "(addr \<Rightarrow> cint \<Rightarrow> cint \<Rightarrow> 'r) \<Rightarrow> addr \<Rightarrow> cint \<Rightarrow> cint \<Rightarrow> 'r" where
  "futex_wake_ex futex_syscall3 ftx pshared val =
    futex_syscall3 ftx (if pshared \<noteq> 0 then FUTEX_WAKE else FUTEX_WAKE_PRIVATE) val"

definition futex_wait_ex ::
  "(addr \<Rightarrow> cint \<Rightarrow> cint \<Rightarrow> timespec option \<Rightarrow> 'r) \<Rightarrow> addr \<Rightarrow> cint \<Rightarrow> cint \<Rightarrow> timespec option \<Rightarrow> 'r" where
  "futex_wait_ex futex_syscall4 ftx pshared val timeout =
    futex_syscall4 ftx (if pshared \<noteq> 0 then FUTEX_WAIT else FUTEX_WAIT_PRIVATE) val timeout"

text \<open>
  The kernel keeps a queue of sleepers per address and apart for private and shared words: a private
  wake-up does not find a thread that went to sleep as shared. \<open>wait_key\<close> and \<open>wake_key\<close> are the queues the two
  wrappers reach.
\<close>

type_synonym futex_key = "addr \<times> bool"

definition futex_key :: "addr \<Rightarrow> cint \<Rightarrow> futex_key" where
  "futex_key ftx op = (ftx, op AND FUTEX_PRIVATE_FLAG \<noteq> 0)"

definition wait_key :: "addr \<Rightarrow> cint \<Rightarrow> futex_key" where
  "wait_key ftx pshared = futex_wait_ex (\<lambda>ftx op val timeout. futex_key ftx op) ftx pshared 0 None"

definition wake_key :: "addr \<Rightarrow> cint \<Rightarrow> futex_key" where
  "wake_key ftx pshared = futex_wake_ex (\<lambda>ftx op val. futex_key ftx op) ftx pshared 1"

lemma key_simps [simp]: "wait_key a sh = (a, sh = 0)" "wake_key a sh = (a, sh = 0)"
  by (simp_all add: wait_key_def wake_key_def futex_wait_ex_def futex_wake_ex_def futex_key_def
      FUTEX_WAIT_def FUTEX_WAKE_def FUTEX_PRIVATE_FLAG_def FUTEX_WAIT_PRIVATE_def FUTEX_WAKE_PRIVATE_def)

section \<open>The kernel\<close>

text \<open>
  \<open>fwait F cur val (Some r)\<close>: a wait for \<open>val\<close> on a word that reads \<open>cur\<close> may return \<open>r\<close> at once;
  \<open>fwait F cur val None\<close>: it may go to sleep. \<open>fwake F S n W\<close>: a wake-up of \<open>n\<close> among the
  sleepers \<open>S\<close> may wake exactly \<open>W\<close>.
\<close>

record futex =
  fwait :: "cint \<Rightarrow> cint \<Rightarrow> cint option \<Rightarrow> bool"
  fwake :: "cint set \<Rightarrow> cint \<Rightarrow> cint set \<Rightarrow> bool"

text \<open>The documented behaviour the no-lost-wake-up results rely on.\<close>

definition futex_sleeps_only_on_match :: "futex \<Rightarrow> bool" where
  "futex_sleeps_only_on_match F \<longleftrightarrow> (\<forall>cur val. fwait F cur val None \<longrightarrow> cur = val)"

lemma futex_sleepD: "futex_sleeps_only_on_match F \<Longrightarrow> fwait F cur val None \<Longrightarrow> cur = val"
  by (simp add: futex_sleeps_only_on_match_def)

definition futex_wakes_someone :: "futex \<Rightarrow> bool" where
  "futex_wakes_someone F \<longleftrightarrow>
    (\<forall>S n W. fwake F S n W \<longrightarrow> W \<subseteq> S \<and> (S \<noteq> {} \<and> 0 < sint n \<longrightarrow> W \<noteq> {}))"

text \<open>Waking \<open>INT_MAX\<close> sleepers wakes all of them.\<close>

definition futex_wakes_all :: "futex \<Rightarrow> bool" where
  "futex_wakes_all F \<longleftrightarrow> (\<forall>S W. fwake F S INT_MAX W \<longrightarrow> W = S)"

text \<open>A wake-up returns; a wait returns at once with \<open>EAGAIN\<close> when the word has another value, and sleeps otherwise.\<close>

definition futex_wake_answers :: "futex \<Rightarrow> bool" where
  "futex_wake_answers F \<longleftrightarrow> (\<forall>S n. \<exists>W. fwake F S n W)"

definition futex_compares :: "futex \<Rightarrow> bool" where
  "futex_compares F \<longleftrightarrow> (\<forall>cur val. fwait F cur val (if cur = val then None else Some (- EAGAIN)))"

text \<open>A kernel that has it: sleep exactly on a match, wake any one sleeper, or all of them.\<close>

definition linux_futex :: futex where
  "linux_futex = \<lparr>fwait = (\<lambda>cur val r. r = (if cur = val then None else Some (- EAGAIN))),
    fwake = (\<lambda>S n W. if n = 1 then (if S = {} then W = {} else \<exists>u\<in>S. W = {u}) else W = S)\<rparr>"

locale futex_kernel =
  fixes F :: futex
  assumes sleeps_only_on_match: "futex_sleeps_only_on_match F"
    and wakes_someone: "futex_wakes_someone F"

locale full_futex_kernel = futex_kernel +
  assumes wakes_all: "futex_wakes_all F"

interpretation linux: full_futex_kernel linux_futex
  by unfold_locales
     (auto simp: futex_sleeps_only_on_match_def futex_wakes_someone_def futex_wakes_all_def linux_futex_def
        INT_MAX_def split: if_splits)

lemma linux_answers: "futex_wake_answers linux_futex" "futex_compares linux_futex"
  by (auto simp: futex_wake_answers_def futex_compares_def linux_futex_def)

end
