(* ===== verification/Interleave.thy ===== *)
theory Interleave
  imports Mutex_Spec Futex
begin

text \<open>
  Any number of threads calling the functions of one mutex, and of any number of condition variables
  used with it, interleaved at every access to memory.
  The kernel's futex is a parameter \<open>F\<close> (theory \<open>Futex\<close>); the safety results hold for every \<open>F\<close>, the
  wake-up results name what they use of it. A thread's \<open>depth\<close> counts the successful lock calls it has not undone,
  as the caller of the library sees them.
\<close>

section \<open>Threads\<close>

datatype call =
    Lock | Trylock | Timedlock cint | Unlock
  | Cond_wait addr | Cond_timedwait addr "timespec option" | Cond_timedwait_monotonic addr "timespec option"
  | Cond_timedwait_relative addr "timespec option" | Cond_timeout addr cint
  | Cond_signal addr | Cond_broadcast addr

fun call_prog :: "addr \<Rightarrow> call \<Rightarrow> prog" where
  "call_prog m Lock = pthread_mutex_lock m"
| "call_prog m Trylock = pthread_mutex_trylock m"
| "call_prog m (Timedlock msecs) = pthread_mutex_lock_timeout_np m msecs"
| "call_prog m Unlock = pthread_mutex_unlock m"
| "call_prog m (Cond_wait cond) = pthread_cond_wait cond m"
| "call_prog m (Cond_timedwait cond abstime) = pthread_cond_timedwait cond m abstime"
| "call_prog m (Cond_timedwait_monotonic cond abstime) = pthread_cond_timedwait_monotonic cond m abstime"
| "call_prog m (Cond_timedwait_relative cond reltime) = pthread_cond_timedwait_relative_np cond m reltime"
| "call_prog m (Cond_timeout cond msecs) = pthread_cond_timeout_np cond m msecs"
| "call_prog m (Cond_signal cond) = pthread_cond_signal cond"
| "call_prog m (Cond_broadcast cond) = pthread_cond_broadcast cond"

datatype activity =
    Idle
  | In call prog
  | Asleep call futex_key "cint \<Rightarrow> prog"

record thread =
  depth :: nat
  act :: activity

record sys =
  smem :: "addr \<Rightarrow> cint"
  thr :: "cint \<Rightarrow> thread"

fun locking :: "call \<Rightarrow> bool" where
  "locking Lock = True"
| "locking Trylock = True"
| "locking (Timedlock msecs) = True"
| "locking c = False"

text \<open>What a returning call means to its caller: a wait on a condition variable leaves the mutex as it
  found it.\<close>

definition new_depth :: "call \<Rightarrow> cint \<Rightarrow> nat \<Rightarrow> nat" where
  "new_depth c r n =
    (if locking c \<and> r = 0 then Suc n else if c = Unlock \<and> r = 0 then n - 1 else n)"

lemma new_depth_simps [simp]:
  "new_depth Lock r n = (if r = 0 then Suc n else n)"
  "new_depth Trylock r n = (if r = 0 then Suc n else n)"
  "new_depth (Timedlock ms) r n = (if r = 0 then Suc n else n)"
  "new_depth Unlock r n = (if r = 0 then n - 1 else n)"
  "new_depth (Cond_wait cond) r n = n" "new_depth (Cond_timedwait cond abstime) r n = n"
  "new_depth (Cond_timedwait_monotonic cond abstime) r n = n"
  "new_depth (Cond_timedwait_relative cond reltime) r n = n" "new_depth (Cond_timeout cond msecs) r n = n"
  "new_depth (Cond_signal cond) r n = n" "new_depth (Cond_broadcast cond) r n = n"
  by (simp_all add: new_depth_def)

text \<open>The holds a thread keeps throughout a call: all of them, or all but one while it unlocks or waits.\<close>

fun waiting :: "call \<Rightarrow> bool" where
  "waiting (Cond_wait cond) = True"
| "waiting (Cond_timedwait cond abstime) = True"
| "waiting (Cond_timedwait_monotonic cond abstime) = True"
| "waiting (Cond_timedwait_relative cond reltime) = True"
| "waiting (Cond_timeout cond msecs) = True"
| "waiting c = False"

fun kept :: "call \<Rightarrow> nat \<Rightarrow> nat" where
  "kept Unlock n = n - 1"
| "kept c n = (if waiting c then n - 1 else n)"

lemma kept_le: "kept c n \<le> n"
  by (cases c) auto

definition in_critical :: "thread \<Rightarrow> bool" where
  "in_critical th =
    (case act th of Idle \<Rightarrow> depth th > 0 | In c p \<Rightarrow> kept c (depth th) > 0
     | Asleep c key k \<Rightarrow> kept c (depth th) > 0)"

fun asleep :: "activity \<Rightarrow> bool" where
  "asleep (Asleep c key k) = True"
| "asleep _ = False"

fun queued :: "futex_key \<Rightarrow> activity \<Rightarrow> bool" where
  "queued key (Asleep c key' k) = (key = key')"
| "queued key _ = False"

text \<open>Asleep on an address, in the shared or in the private queue.\<close>

fun sleeps_on :: "addr \<Rightarrow> activity \<Rightarrow> bool" where
  "sleeps_on a (Asleep c key k) = (a = fst key)"
| "sleeps_on a _ = False"

fun wake_up :: "activity \<Rightarrow> activity" where
  "wake_up (Asleep c key k) = In c (k 0)"
| "wake_up x = x"

definition set_act :: "sys \<Rightarrow> cint \<Rightarrow> activity \<Rightarrow> sys" where
  "set_act s t x = s\<lparr>thr := (thr s)(t := (thr s t)\<lparr>act := x\<rparr>)\<rparr>"

text \<open>The accesses a thread makes without the kernel.\<close>

fun access :: "cint \<Rightarrow> (addr \<Rightarrow> cint) \<Rightarrow> prog \<Rightarrow> ((addr \<Rightarrow> cint) \<times> prog) option" where
  "access t M (Load a k) = Some (M, k (M a))"
| "access t M (Store a v p) = Some (M(a := v), p)"
| "access t M (Cmpxchg old new a k) = (if M a = old then Some (M(a := new), k 0) else Some (M, k 1))"
| "access t M (Swap new a k) = Some (M(a := new), k (M a))"
| "access t M (Atomic_dec a k) = Some (M(a := M a - 1), k (M a))"
| "access t M (Get_tid k) = Some (M, k t)"
| "access t M (Membar p) = Some (M, p)"
| "access t M (Call l k) = Some (M, bind (loop_body l) k)"
| "access t M _ = None"

section \<open>Steps of the system\<close>

text \<open>
  \<open>ok c n\<close> is the discipline of the callers: a thread whose depth is \<open>n\<close> may call \<open>c\<close>. A sleeping
  thread may stop sleeping at any moment with any status (a signal, a timeout, a spurious wake-up).
  Apart from the accesses to memory, all steps are quiet: they leave the memory alone. \<open>thread_step\<close> are the steps of
  one thread, \<open>sys_step\<close> those of any.
\<close>

inductive quiet_step :: "futex \<Rightarrow> addr \<Rightarrow> (call \<Rightarrow> nat \<Rightarrow> bool) \<Rightarrow> cint \<Rightarrow> sys \<Rightarrow> sys \<Rightarrow> bool"
  for F :: futex and m :: addr and ok :: "call \<Rightarrow> nat \<Rightarrow> bool" and t :: cint where
  call: "valid_tid t \<Longrightarrow> act (thr s t) = Idle \<Longrightarrow> ok c (depth (thr s t)) \<Longrightarrow>
    quiet_step F m ok t s (set_act s t (In c (call_prog m c)))"
| clock: "act (thr s t) = In c (Clock_gettime cl k) \<Longrightarrow> quiet_step F m ok t s (set_act s t (In c (k ts)))"
| wait_return: "act (thr s t) = In c (Futex_wait a sh v ts k) \<Longrightarrow> fwait F (smem s a) v (Some r) \<Longrightarrow>
    quiet_step F m ok t s (set_act s t (In c (k r)))"
| wait_sleep: "act (thr s t) = In c (Futex_wait a sh v ts k) \<Longrightarrow> fwait F (smem s a) v None \<Longrightarrow>
    quiet_step F m ok t s (set_act s t (Asleep c (wait_key a sh) k))"
| interrupted: "act (thr s t) = Asleep c key k \<Longrightarrow> quiet_step F m ok t s (set_act s t (In c (k r)))"
| wake: "act (thr s t) = In c (Futex_wake a sh n k) \<Longrightarrow>
    fwake F {u. queued (wake_key a sh) (act (thr s u))} n W \<Longrightarrow>
    s' = s\<lparr>thr := (\<lambda>u. if u \<in> W then (thr s u)\<lparr>act := wake_up (act (thr s u))\<rparr> else thr s u)\<rparr> \<Longrightarrow>
    quiet_step F m ok t s (set_act s' t (In c (k r)))"
| return: "act (thr s t) = In c (Return r) \<Longrightarrow>
    quiet_step F m ok t s (s\<lparr>thr := (thr s)(t := \<lparr>depth = new_depth c r (depth (thr s t)), act = Idle\<rparr>)\<rparr>)"

inductive thread_step :: "futex \<Rightarrow> addr \<Rightarrow> (call \<Rightarrow> nat \<Rightarrow> bool) \<Rightarrow> cint \<Rightarrow> sys \<Rightarrow> sys \<Rightarrow> bool"
  for F :: futex and m :: addr and ok :: "call \<Rightarrow> nat \<Rightarrow> bool" and t :: cint where
  access: "act (thr s t) = In c p \<Longrightarrow> access t (smem s) p = Some (M, p') \<Longrightarrow>
    thread_step F m ok t s ((set_act s t (In c p'))\<lparr>smem := M\<rparr>)"
| quiet: "quiet_step F m ok t s s' \<Longrightarrow> thread_step F m ok t s s'"

inductive sys_step :: "futex \<Rightarrow> addr \<Rightarrow> (call \<Rightarrow> nat \<Rightarrow> bool) \<Rightarrow> sys \<Rightarrow> sys \<Rightarrow> bool"
  for F :: futex and m :: addr and ok :: "call \<Rightarrow> nat \<Rightarrow> bool" where
  some_thread: "thread_step F m ok t s s' \<Longrightarrow> sys_step F m ok s s'"

lemma sys_step_cases [case_names access call clock wait_return wait_sleep interrupted wake return]:
  assumes "sys_step F m ok s s'"
  obtains (access) t c p M p' where "s' = (set_act s t (In c p'))\<lparr>smem := M\<rparr>" "act (thr s t) = In c p"
      "access t (smem s) p = Some (M, p')"
    | (call) t c where "s' = set_act s t (In c (call_prog m c))" "valid_tid t" "act (thr s t) = Idle"
      "ok c (depth (thr s t))"
    | (clock) t c cl k ts where "s' = set_act s t (In c (k ts))" "act (thr s t) = In c (Clock_gettime cl k)"
    | (wait_return) t c a sh v ts k r where "s' = set_act s t (In c (k r))"
      "act (thr s t) = In c (Futex_wait a sh v ts k)" "fwait F (smem s a) v (Some r)"
    | (wait_sleep) t c a sh v ts k where "s' = set_act s t (Asleep c (wait_key a sh) k)"
      "act (thr s t) = In c (Futex_wait a sh v ts k)" "fwait F (smem s a) v None"
    | (interrupted) t c key k r where "s' = set_act s t (In c (k r))" "act (thr s t) = Asleep c key k"
    | (wake) t c a sh n k W s1 r where "s' = set_act s1 t (In c (k r))" "act (thr s t) = In c (Futex_wake a sh n k)"
      "fwake F {u. queued (wake_key a sh) (act (thr s u))} n W"
      "s1 = s\<lparr>thr := (\<lambda>u. if u \<in> W then (thr s u)\<lparr>act := wake_up (act (thr s u))\<rparr> else thr s u)\<rparr>"
    | (return) t c r where "s' = s\<lparr>thr := (thr s)(t := \<lparr>depth = new_depth c r (depth (thr s t)), act = Idle\<rparr>)\<rparr>"
      "act (thr s t) = In c (Return r)"
proof -
  from assms obtain t where "thread_step F m ok t s s'" by cases
  then show thesis
  proof cases
    case quiet
    then show thesis by cases (use that in \<open>simp_all del: key_simps\<close>)
  qed (use access in simp)
qed

inductive reachable :: "futex \<Rightarrow> addr \<Rightarrow> (call \<Rightarrow> nat \<Rightarrow> bool) \<Rightarrow> sys \<Rightarrow> sys \<Rightarrow> bool"
  for F :: futex and m :: addr and ok :: "call \<Rightarrow> nat \<Rightarrow> bool" and s0 :: sys where
  start: "reachable F m ok s0 s0"
| step: "reachable F m ok s0 s \<Longrightarrow> sys_step F m ok s s' \<Longrightarrow> reachable F m ok s0 s'"

text \<open>A fresh mutex, with no thread inside the library.\<close>

definition fresh_sys :: "addr \<Rightarrow> cint \<Rightarrow> sys" where
  "fresh_sys m v = \<lparr>smem = (\<lambda>_. 0)(m := v), thr = (\<lambda>_. \<lparr>depth = 0, act = Idle\<rparr>)\<rparr>"

lemma queued_sleeps: "queued (a, x) y \<Longrightarrow> sleeps_on a y"
  by (cases y) auto

lemma set_act_simps [simp]:
  "smem (set_act s t x) = smem s"
  "thr (set_act s t x) u = (if u = t then (thr s t)\<lparr>act := x\<rparr> else thr s u)"
  by (simp_all add: set_act_def)

end
