(* ===== verification/Protocol.thy ===== *)
theory Protocol
  imports Interleave
begin

text \<open>
  A small program logic for the threads of theory \<open>Interleave\<close>. A protocol says which words a mutex
  can hold for every ghost owner (the thread that holds it, with its depth) and gives each loop head
  a contract. \<open>wp\<close> computes what a program needs, every other thread being free to change the word
  within the protocol between two accesses. The locale \<open>verified_calls\<close> states what a client of the
  logic proves about the code, its loops and its entry points, and derives the invariant of the
  whole system.
\<close>

section \<open>Ghost owners\<close>

type_synonym ghost = "(cint \<times> nat) option"

fun gdepth :: "ghost \<Rightarrow> cint \<Rightarrow> nat" where
  "gdepth None u = 0"
| "gdepth (Some (t, c)) u = (if u = t then c else 0)"

definition locked :: "cint \<Rightarrow> bool" where
  "locked v \<longleftrightarrow> v AND MUTEX_STATE_MASK \<noteq> 0"

definition counter :: "cint \<Rightarrow> nat" where
  "counter v = unat (v AND MUTEX_COUNTER_MASK) div 4"

abbreviation contended :: "cint \<Rightarrow> bool" where
  "contended v \<equiv> MUTEX_STATE_BITS_IS_LOCKED_CONTENDED v"

text \<open>The owner after thread \<open>t\<close> has replaced \<open>v\<close> by \<open>v'\<close>.\<close>

definition next_ghost :: "cint \<Rightarrow> ghost \<Rightarrow> cint \<Rightarrow> cint \<Rightarrow> ghost" where
  "next_ghost t g v v' =
    (if \<not> locked v' then None
     else case g of None \<Rightarrow> Some (t, 1) | Some (u, c) \<Rightarrow> Some (u, c + counter v' - counter v))"

section \<open>Protocols\<close>

text \<open>
  \<open>p_inv g v\<close>: the word is \<open>v\<close> while the owner is \<open>g\<close>. With \<open>p_live\<close> the logic also tracks the duty
  to wake a sleeper: whoever makes a contended word uncontended, and whoever is woken, has it until
  they wake somebody or make the word contended again. \<open>p_pre t lo d b l\<close> is the condition for
  thread \<open>t\<close> to enter the loop at \<open>l\<close> with depth \<open>d\<close>, duty \<open>b\<close> and at least \<open>lo\<close> holds to keep;
  \<open>p_post t d l d' r\<close> relates the depth at entry to the depth and the value at exit. All sleepers on the
  mutex are in the queue \<open>p_shared\<close> says, which is the one the wake-ups reach.
\<close>

record proto =
  p_inv :: "ghost \<Rightarrow> cint \<Rightarrow> bool"
  p_shared :: bool
  p_live :: bool
  p_pre :: "cint \<Rightarrow> nat \<Rightarrow> nat \<Rightarrow> bool \<Rightarrow> label \<Rightarrow> bool"
  p_post :: "cint \<Rightarrow> nat \<Rightarrow> label \<Rightarrow> nat \<Rightarrow> cint \<Rightarrow> bool"

definition duty :: "proto \<Rightarrow> bool \<Rightarrow> cint \<Rightarrow> cint \<Rightarrow> bool" where
  "duty P b v v' \<longleftrightarrow> p_live P \<and> \<not> contended v' \<and> (b \<or> contended v)"

text \<open>Thread \<open>t\<close> may replace \<open>v\<close> by \<open>v'\<close>: the protocol holds again, nobody else's depth changes.\<close>

text \<open>What thread \<open>t\<close> may do to the word: never take away another thread's hold, nor its mark that somebody waits.\<close>

definition allowed :: "proto \<Rightarrow> cint \<Rightarrow> ghost \<Rightarrow> cint \<Rightarrow> cint \<Rightarrow> bool" where
  "allowed P t g v v' \<longleftrightarrow> p_inv P (next_ghost t g v v') v' \<and>
    (\<forall>u. u \<noteq> t \<longrightarrow> gdepth (next_ghost t g v v') u = gdepth g u \<and> (0 < gdepth g u \<and> contended v \<longrightarrow> contended v'))"

primrec wp :: "proto \<Rightarrow> addr \<Rightarrow> cint \<Rightarrow> nat \<Rightarrow> prog \<Rightarrow> (nat \<Rightarrow> bool \<Rightarrow> cint \<Rightarrow> bool) \<Rightarrow> nat \<Rightarrow> bool \<Rightarrow> bool" where
  "wp P m t lo (Return r) Q d b = Q d b r"
| "wp P m t lo (Load a k) Q d b =
    (lo \<le> d \<and> (if a = m then (\<forall>g v. p_inv P g v \<longrightarrow> gdepth g t = d \<longrightarrow> wp P m t lo (k v) Q d b)
      else (\<forall>v. wp P m t lo (k v) Q d b)))"
| "wp P m t lo (Store a v' p) Q d b =
    (lo \<le> d \<and> (if a = m then 0 < d \<and> (\<forall>g v. p_inv P g v \<longrightarrow> gdepth g t = d \<longrightarrow> allowed P t g v v' \<and>
        wp P m t lo p Q (gdepth (next_ghost t g v v') t) (duty P b v v'))
      else wp P m t lo p Q d b))"
| "wp P m t lo (Cmpxchg old new a k) Q d b =
    (lo \<le> d \<and> (if a = m then (\<forall>g v. p_inv P g v \<longrightarrow> gdepth g t = d \<longrightarrow>
      (v = old \<longrightarrow> allowed P t g v new \<and>
         wp P m t lo (k 0) Q (gdepth (next_ghost t g v new) t) (duty P b v new)) \<and>
      (v \<noteq> old \<longrightarrow> wp P m t lo (k 1) Q d b))
      else (\<forall>r. wp P m t lo (k r) Q d b)))"
| "wp P m t lo (Swap new a k) Q d b =
    (lo \<le> d \<and> (if a = m then (\<forall>g v. p_inv P g v \<longrightarrow> gdepth g t = d \<longrightarrow> allowed P t g v new \<and>
      wp P m t lo (k v) Q (gdepth (next_ghost t g v new) t) (duty P b v new))
      else (\<forall>v. wp P m t lo (k v) Q d b)))"
| "wp P m t lo (Atomic_dec a k) Q d b =
    (lo \<le> d \<and> (if a = m then 0 < d \<and> (\<forall>g v. p_inv P g v \<longrightarrow> gdepth g t = d \<longrightarrow> allowed P t g v (v - 1) \<and>
      wp P m t lo (k v) Q (gdepth (next_ghost t g v (v - 1)) t) (duty P b v (v - 1)))
      else (\<forall>v. wp P m t lo (k v) Q d b)))"
| "wp P m t lo (Futex_wait a sh v ts k) Q d b =
    (lo = d \<and> (if a = m then (sh \<noteq> 0) = p_shared P \<and> (p_live P \<longrightarrow> contended v) else \<not> b) \<and>
      (\<forall>r b'. (b' \<longrightarrow> p_live P \<and> a = m) \<longrightarrow> wp P m t lo (k r) Q d b'))"
| "wp P m t lo (Futex_wake a sh n k) Q d b =
    (lo \<le> d \<and> (a = m \<longrightarrow> (sh \<noteq> 0) = p_shared P \<and> 0 < sint n) \<and> (\<forall>r. wp P m t lo (k r) Q d (a \<noteq> m \<and> b)))"
| "wp P m t lo (Clock_gettime c k) Q d b = (lo \<le> d \<and> (\<forall>ts. wp P m t lo (k ts) Q d b))"
| "wp P m t lo (Get_tid k) Q d b = (lo \<le> d \<and> wp P m t lo (k t) Q d b)"
| "wp P m t lo (Membar p) Q d b = (lo \<le> d \<and> wp P m t lo p Q d b)"
| "wp P m t lo (Call l k) Q d b =
    (lo \<le> d \<and> p_pre P t lo d b l \<and>
      (\<forall>d' r. p_post P t d l d' r \<longrightarrow> wp P m t lo (k r) Q d' False))"

lemma wp_bind:
  "wp P m t lo p Q d b \<Longrightarrow> (\<And>d b r. Q d b r \<Longrightarrow> wp P m t lo (f r) Q' d b) \<Longrightarrow>
   wp P m t lo (bind p f) Q' d b"
  by (induction p arbitrary: d b) (auto split: if_splits)

lemma wp_mono: "wp P m t lo p Q d b \<Longrightarrow> (\<And>d b r. Q d b r \<Longrightarrow> Q' d b r) \<Longrightarrow> wp P m t lo p Q' d b"
  using wp_bind [of P m t lo p Q d b Return Q'] by simp

lemma wp_kept: "wp P m t lo p Q d b \<Longrightarrow> (\<And>d b r. Q d b r \<Longrightarrow> lo \<le> d) \<Longrightarrow> lo \<le> d"
  by (cases p) auto

section \<open>The invariant of the system\<close>

abbreviation returns :: "call \<Rightarrow> nat \<Rightarrow> nat \<Rightarrow> bool \<Rightarrow> cint \<Rightarrow> bool" where
  "returns c n \<equiv> \<lambda>d b r. \<not> b \<and> d = new_depth c r n"

definition thread_inv :: "proto \<Rightarrow> addr \<Rightarrow> cint \<Rightarrow> nat \<Rightarrow> bool \<Rightarrow> thread \<Rightarrow> bool" where
  "thread_inv P m t d b th \<longleftrightarrow>
    (case act th of
       Idle \<Rightarrow> depth th = d \<and> \<not> b
     | In c p \<Rightarrow> valid_tid t \<and> wp P m t (kept c (depth th)) p (returns c (depth th)) d b
     | Asleep c key k \<Rightarrow> valid_tid t \<and> \<not> b \<and> kept c (depth th) = d \<and> (fst key = m \<longrightarrow> snd key = (\<not> p_shared P)) \<and>
         (\<forall>r b'. (b' \<longrightarrow> p_live P \<and> fst key = m) \<longrightarrow> wp P m t (kept c (depth th)) (k r) (returns c (depth th)) d b'))"

definition sys_inv :: "proto \<Rightarrow> addr \<Rightarrow> ghost \<Rightarrow> (cint \<Rightarrow> bool) \<Rightarrow> sys \<Rightarrow> bool" where
  "sys_inv P m g B s \<longleftrightarrow> p_inv P g (smem s m) \<and> (\<forall>t. thread_inv P m t (gdepth g t) (B t) (thr s t)) \<and>
    (\<forall>t. B t \<longrightarrow> p_live P) \<and>
    (p_live P \<longrightarrow> (\<exists>t. sleeps_on m (act (thr s t))) \<longrightarrow> contended (smem s m) \<or> (\<exists>t. B t))"

lemma thread_inv_kept:
  assumes "thread_inv P m t d b th"
  shows "in_critical th \<Longrightarrow> d > 0"
proof -
  have q: "returns c n d' b' r \<Longrightarrow> kept c n \<le> d'" for c n d' b' r
    by (cases c) auto
  assume "in_critical th"
  with assms show ?thesis
    by (auto simp: thread_inv_def in_critical_def split: activity.splits
        dest!: wp_kept [OF _ q])
qed

lemma inv_exclusion:
  assumes "sys_inv P m g B s" "in_critical (thr s t)" "in_critical (thr s u)"
  shows "t = u"
proof -
  have "0 < gdepth g t" "0 < gdepth g u" using assms thread_inv_kept unfolding sys_inv_def by blast+
  then show ?thesis by (cases g) (auto split: if_splits)
qed

text \<open>One thread changes, everybody else keeps state and depth.\<close>

lemma sys_inv_update:
  assumes "sys_inv P m g B s" "p_inv P g' (smem s' m)"
    and "\<And>u. u \<noteq> t \<Longrightarrow> thr s' u = thr s u" "\<And>u. u \<noteq> t \<Longrightarrow> gdepth g' u = gdepth g u"
    and "thread_inv P m t (gdepth g' t) b (thr s' t)" "b \<Longrightarrow> p_live P"
    and "p_live P \<Longrightarrow> \<exists>u. sleeps_on m (act (thr s' u)) \<Longrightarrow> \<forall>u. u \<noteq> t \<longrightarrow> \<not> B u \<Longrightarrow> contended (smem s' m) \<or> b"
  shows "sys_inv P m g' (B(t := b)) s'"
proof -
  have "thread_inv P m u (gdepth g' u) ((B(t := b)) u) (thr s' u)" for u
    using assms(1,3,4,5) by (cases "u = t") (auto simp: sys_inv_def)
  moreover have "(B(t := b)) u \<longrightarrow> p_live P" for u
    using assms(1,6) by (auto simp: sys_inv_def)
  ultimately show ?thesis
    using assms(2,7) unfolding sys_inv_def by (metis fun_upd_apply)
qed

lemma asleep_contended:
  assumes "sys_inv P m g B s" "p_live P" "sleeps_on m (act (thr s u))" "\<forall>u. u \<noteq> t \<longrightarrow> \<not> B u"
  shows "contended (smem s m) \<or> B t"
  using assms unfolding sys_inv_def by metis

section \<open>Verified calls\<close>

locale verified_calls =
  fixes P :: proto and m :: addr and F :: futex and ok :: "call \<Rightarrow> nat \<Rightarrow> bool"
  assumes loops: "p_pre P t lo d b l \<Longrightarrow> valid_tid t \<Longrightarrow> lo \<le> d \<Longrightarrow>
      wp P m t lo (loop_body l) (\<lambda>d' b' r. \<not> b' \<and> p_post P t d l d' r) d b"
    and calls: "valid_tid t \<Longrightarrow> ok c d \<Longrightarrow> gdepth g t = d \<Longrightarrow> p_inv P g v \<Longrightarrow>
      wp P m t (kept c d) (call_prog m c) (returns c d) d False"
    and ghost_locked: "p_inv P g v \<Longrightarrow> (case g of None \<Rightarrow> \<not> locked v | Some (t, d) \<Rightarrow> locked v \<and> 0 < d)"
    and kernel: "p_live P \<Longrightarrow> futex_sleeps_only_on_match F \<and> futex_wakes_someone F"
begin

lemma next_ghost_same: "p_inv P g v \<Longrightarrow> next_ghost t g v v = g"
  by (drule ghost_locked) (auto simp: next_ghost_def split: option.splits)

text \<open>An access changes the owner as \<open>next_ghost\<close> says, also when it leaves the word as it is.\<close>

lemma access_sound:
  assumes "wp P m t lo p Q (gdepth g t) b" "p_inv P g (M m)" "access t M p = Some (M', p')" "valid_tid t"
    "b \<longrightarrow> p_live P"
  obtains b' where "p_inv P (next_ghost t g (M m) (M' m)) (M' m)"
    "\<And>u. u \<noteq> t \<Longrightarrow> gdepth (next_ghost t g (M m) (M' m)) u = gdepth g u"
    "wp P m t lo p' Q (gdepth (next_ghost t g (M m) (M' m)) t) b'"
    "p_live P \<Longrightarrow> contended (M m) \<or> b \<Longrightarrow> contended (M' m) \<or> b'" "b' \<longrightarrow> p_live P"
    "\<And>u. u \<noteq> t \<Longrightarrow> 0 < gdepth g u \<Longrightarrow> contended (M m) \<Longrightarrow> contended (M' m)"
proof -
  note found = that
  have keep: thesis if "M' m = M m" "wp P m t lo p' Q (gdepth g t) b"
    using that assms(2,5) by (intro found [of b]) (simp_all add: next_ghost_same)
  have replace: thesis if "allowed P t g (M m) (M' m)"
    "wp P m t lo p' Q (gdepth (next_ghost t g (M m) (M' m)) t) (duty P b (M m) (M' m))"
    using that by (intro found [of "duty P b (M m) (M' m)"]) (auto simp: allowed_def duty_def)
  show thesis
  proof (cases p)
    case (Call l k)
    then have "wp P m t lo (bind (loop_body l) k) Q (gdepth g t) b"
      using assms(1,4) by (auto intro!: wp_bind [OF loops])
    with Call assms show thesis by (intro keep) auto
  next
    case (Store a v' q)
    with assms show thesis by (cases "a = m") (auto intro: keep replace)
  next
    case (Cmpxchg old new a k)
    with assms show thesis
      by (cases "a = m"; cases "M a = old") (auto intro: keep replace split: if_splits)
  next
    case (Swap new a k)
    with assms show thesis by (cases "a = m") (auto intro: keep replace)
  next
    case (Atomic_dec a k)
    with assms show thesis by (cases "a = m") (auto intro: keep replace)
  next
    case (Load a k)
    with assms show thesis by (cases "a = m") (auto intro: keep)
  qed (use assms keep in auto)
qed

lemma inv_In:
  assumes "sys_inv P m g B s" "act (thr s t) = In c p"
  shows "valid_tid t" "wp P m t (kept c (depth (thr s t))) p (returns c (depth (thr s t))) (gdepth g t) (B t)"
    "p_inv P g (smem s m)" "B t \<longrightarrow> p_live P"
  using assms by (auto simp: sys_inv_def thread_inv_def dest!: spec [of _ t])

lemma access_others:
  assumes inv: "sys_inv P m g B s" and act: "act (thr s u) = In c p" and acc: "access u (smem s) p = Some (M, p')"
    and other: "t \<noteq> u"
  shows "gdepth (next_ghost u g (smem s m) (M m)) t = gdepth g t"
    "0 < gdepth g t \<Longrightarrow> contended (smem s m) \<Longrightarrow> contended (M m)"
proof -
  note u = inv_In [OF inv act]
  show "gdepth (next_ghost u g (smem s m) (M m)) t = gdepth g t"
    by (rule access_sound [OF u(2,3) acc u(1,4)]) (use other in simp)
  show "contended (M m)" if "0 < gdepth g t" "contended (smem s m)"
    by (rule access_sound [OF u(2,3) acc u(1,4)]) (use that other in metis)
qed

lemma inv_Asleep:
  assumes "sys_inv P m g B s" "act (thr s t) = Asleep c key k"
  shows "valid_tid t"
    "wp P m t (kept c (depth (thr s t))) (k r) (returns c (depth (thr s t))) (gdepth g t) (B t)"
proof -
  have "thread_inv P m t (gdepth g t) (B t) (thr s t)" using assms(1) by (simp add: sys_inv_def)
  then show "valid_tid t"
    "wp P m t (kept c (depth (thr s t))) (k r) (returns c (depth (thr s t))) (gdepth g t) (B t)"
    using assms(2) by (auto simp: thread_inv_def)
qed

lemma sleeper_queue:
  assumes "sys_inv P m g B s" "sleeps_on m (act (thr s u))"
  shows "queued (m, \<not> p_shared P) (act (thr s u))"
proof -
  have "thread_inv P m u (gdepth g u) (B u) (thr s u)" using assms(1) by (simp add: sys_inv_def)
  then show ?thesis using assms(2) by (cases "act (thr s u)") (auto simp: thread_inv_def)
qed

lemma step_call:
  assumes inv: "sys_inv P m g B s" and t: "valid_tid t" "act (thr s t) = Idle" and c: "ok c (depth (thr s t))"
  shows "\<exists>B. sys_inv P m g B (set_act s t (In c (call_prog m c)))"
proof -
  have d: "gdepth g t = depth (thr s t)" "\<not> B t" "p_inv P g (smem s m)"
    using inv t by (auto simp: sys_inv_def thread_inv_def dest!: spec [of _ t])
  have "sys_inv P m g (B(t := False)) (set_act s t (In c (call_prog m c)))"
    using inv
  proof (rule sys_inv_update)
    show "thread_inv P m t (gdepth g t) False (thr (set_act s t (In c (call_prog m c))) t)"
      using calls [OF t(1) c d(1,3)] t d by (simp add: thread_inv_def)
    assume "p_live P" "\<exists>u. sleeps_on m (act (thr (set_act s t (In c (call_prog m c))) u))" "\<forall>u. u \<noteq> t \<longrightarrow> \<not> B u"
    then show "contended (smem (set_act s t (In c (call_prog m c))) m) \<or> False"
      using asleep_contended [OF inv] d(2) by (auto split: if_splits)
  qed (use d in auto)
  then show ?thesis by blast
qed

lemma step_access:
  assumes inv: "sys_inv P m g B s" and act: "act (thr s t) = In c p" and acc: "access t (smem s) p = Some (M, p')"
  shows "\<exists>B. sys_inv P m (next_ghost t g (smem s m) (M m)) B ((set_act s t (In c p'))\<lparr>smem := M\<rparr>)"
proof -
  note t = inv_In [OF inv act]
  let ?g = "next_ghost t g (smem s m) (M m)"
  obtain b' where
    g': "p_inv P ?g (M m)" "\<And>u. u \<noteq> t \<Longrightarrow> gdepth ?g u = gdepth g u"
    "wp P m t (kept c (depth (thr s t))) p' (returns c (depth (thr s t))) (gdepth ?g t) b'"
    "p_live P \<Longrightarrow> contended (smem s m) \<or> B t \<Longrightarrow> contended (M m) \<or> b'"
    "b' \<longrightarrow> p_live P" by (rule access_sound [OF t(2,3) acc t(1,4)]) (rule that)
  have "sys_inv P m ?g (B(t := b')) ((set_act s t (In c p'))\<lparr>smem := M\<rparr>)"
    using inv
  proof (rule sys_inv_update)
    show "thread_inv P m t (gdepth ?g t) b' (thr (set_act s t (In c p')\<lparr>smem := M\<rparr>) t)"
      using g' t by (simp add: thread_inv_def set_act_def)
    assume "p_live P" "\<exists>u. sleeps_on m (act (thr (set_act s t (In c p')\<lparr>smem := M\<rparr>) u))" "\<forall>u. u \<noteq> t \<longrightarrow> \<not> B u"
    then show "contended (smem (set_act s t (In c p')\<lparr>smem := M\<rparr>) m) \<or> b'"
      using asleep_contended [OF inv] g'(4) by (auto simp: set_act_def split: if_splits)
  qed (use g' in \<open>auto simp: set_act_def\<close>)
  then show ?thesis by blast
qed

lemma step_inside:
  assumes inv: "sys_inv P m g B s" and act: "act (thr s t) = In c p \<or> act (thr s t) = Asleep c key k"
    and t: "valid_tid t"
    and wp: "wp P m t (kept c (depth (thr s t))) p' (returns c (depth (thr s t))) (gdepth g t) (B t)"
  shows "\<exists>B. sys_inv P m g B (set_act s t (In c p'))"
proof -
  have "sys_inv P m g (B(t := B t)) (set_act s t (In c p'))"
    using inv
  proof (rule sys_inv_update)
    show "thread_inv P m t (gdepth g t) (B t) (thr (set_act s t (In c p')) t)"
      using t wp by (simp add: thread_inv_def)
    assume "p_live P" "\<exists>u. sleeps_on m (act (thr (set_act s t (In c p')) u))" "\<forall>u. u \<noteq> t \<longrightarrow> \<not> B u"
    then show "contended (smem (set_act s t (In c p')) m) \<or> B t"
      using asleep_contended [OF inv] by (auto split: if_splits)
  qed (use inv in \<open>auto simp: sys_inv_def set_act_def\<close>)
  then show ?thesis by blast
qed

lemma step_sleep:
  assumes inv: "sys_inv P m g B s" and act: "act (thr s t) = In c (Futex_wait a sh v ts k)"
    and sleep: "fwait F (smem s a) v None"
  shows "\<exists>B. sys_inv P m g B (set_act s t (Asleep c (wait_key a sh) k))"
proof -
  note t = inv_In [OF inv act]
  have "sys_inv P m g (B(t := False)) (set_act s t (Asleep c (wait_key a sh) k))"
    using inv
  proof (rule sys_inv_update)
    show "thread_inv P m t (gdepth g t) False (thr (set_act s t (Asleep c (wait_key a sh) k)) t)"
      using t by (auto simp: thread_inv_def)
    assume live: "p_live P" "\<exists>u. sleeps_on m (act (thr (set_act s t (Asleep c (wait_key a sh) k)) u))" "\<forall>u. u \<noteq> t \<longrightarrow> \<not> B u"
    then have "smem s a = v" using kernel sleep by (auto simp: futex_sleeps_only_on_match_def)
    then show "contended (smem (set_act s t (Asleep c (wait_key a sh) k)) m) \<or> False"
      using t(2) live asleep_contended [OF inv live(1) _ live(3)] by (auto split: if_splits)
  qed (use t in auto)
  then show ?thesis by blast
qed

lemma step_return:
  assumes inv: "sys_inv P m g B s" and act: "act (thr s t) = In c (Return r)"
  shows "\<exists>B. sys_inv P m g B
    (s\<lparr>thr := (thr s)(t := \<lparr>depth = new_depth c r (depth (thr s t)), act = Idle\<rparr>)\<rparr>)"
proof -
  note t = inv_In [OF inv act]
  let ?s = "s\<lparr>thr := (thr s)(t := \<lparr>depth = new_depth c r (depth (thr s t)), act = Idle\<rparr>)\<rparr>"
  have "sys_inv P m g (B(t := False)) ?s"
    using inv
  proof (rule sys_inv_update)
    show "thread_inv P m t (gdepth g t) False (thr ?s t)"
      using t by (auto simp: thread_inv_def)
    assume "p_live P" "\<exists>u. sleeps_on m (act (thr ?s u))" "\<forall>u. u \<noteq> t \<longrightarrow> \<not> B u"
    then show "contended (smem ?s m) \<or> False"
      using asleep_contended [OF inv] t(2) by (auto split: if_splits)
  qed (use t in auto)
  then show ?thesis by blast
qed

lemma step_wake:
  assumes inv: "sys_inv P m g B s" and act: "act (thr s t) = In c (Futex_wake a sh n k)"
    and wake: "fwake F {u. queued (wake_key a sh) (act (thr s u))} n W"
    and s': "s' = s\<lparr>thr := (\<lambda>u. if u \<in> W then (thr s u)\<lparr>act := wake_up (act (thr s u))\<rparr> else thr s u)\<rparr>"
  shows "\<exists>B. sys_inv P m g B (set_act s' t (In c (k r)))"
proof -
  note t = inv_In [OF inv act]
  define B' where "B' u = (if u = t then a \<noteq> m \<and> B t
    else if u \<in> W \<and> sleeps_on m (act (thr s u)) then p_live P else B u)" for u
  have other: "thread_inv P m u (gdepth g u) (B' u) (thr s' u)" "B u \<Longrightarrow> u \<noteq> t \<Longrightarrow> B' u" if "u \<noteq> t" for u
  proof -
    have "thread_inv P m u (gdepth g u) (B u) (thr s u)" using inv by (simp add: sys_inv_def)
    then show "thread_inv P m u (gdepth g u) (B' u) (thr s' u)" "B u \<Longrightarrow> u \<noteq> t \<Longrightarrow> B' u"
      using that by (cases "act (thr s u)"; auto simp: thread_inv_def s' B'_def)+
  qed
  have same: "thr s' t = thr s t" by (simp add: s' act)
  have live: "contended (smem s m) \<or> (\<exists>u. B' u)"
    if live: "p_live P" and "sleeps_on m (act (thr (set_act s' t (In c (k r))) u))" for u
  proof -
    from that(2) have u: "sleeps_on m (act (thr s u))"
      by (cases "act (thr s u)") (auto simp: s' split: if_splits)
    show ?thesis
    proof (cases "a = m")
      case True
      have n: "0 < sint n" and key: "wake_key a sh = (m, \<not> p_shared P)" using t(2) True by auto
      have "queued (wake_key a sh) (act (thr s u))" using sleeper_queue [OF inv u] key by simp
      with n obtain x where "x \<in> W" "queued (wake_key a sh) (act (thr s x))"
        using kernel [OF live] wake unfolding futex_wakes_someone_def by fastforce
      moreover from this(2) have "sleeps_on m (act (thr s x))" unfolding key by (rule queued_sleeps)
      moreover from this act have "x \<noteq> t" by auto
      ultimately show ?thesis using live by (auto simp: B'_def)
    next
      case False
      have "contended (smem s m) \<or> (\<exists>u. B u)" using inv live u by (auto simp: sys_inv_def)
      with False other(2) show ?thesis unfolding B'_def by metis
    qed
  qed
  have "thread_inv P m u (gdepth g u) (B' u) (thr (set_act s' t (In c (k r))) u)" for u
    using other(1) [of u] t(1,2) same by (cases "u = t") (auto simp: thread_inv_def B'_def)
  moreover have "B' u \<longrightarrow> p_live P" for u
    using inv by (auto simp: B'_def sys_inv_def)
  moreover have "p_inv P g (smem (set_act s' t (In c (k r))) m)" "smem (set_act s' t (In c (k r))) = smem s"
    using t(3) by (simp_all add: s')
  ultimately have "sys_inv P m g B' (set_act s' t (In c (k r)))"
    using live unfolding sys_inv_def by metis
  then show ?thesis by blast
qed

lemma quiet_preserves:
  assumes "quiet_step F m ok t s s'" "sys_inv P m g B s"
  shows "\<exists>B. sys_inv P m g B s'"
  using assms
proof (induction rule: quiet_step.induct)
  case (wait_return s c a sh v ts k r)
  note t = inv_In [OF wait_return(3,1)]
  from t(2,4) have "wp P m t (kept c (depth (thr s t))) (k r) (returns c (depth (thr s t))) (gdepth g t) (B t)"
    by (cases "a = m") auto
  with wait_return t(1) show ?case by (blast intro: step_inside)
next
  case (interrupted s c key k r)
  from inv_Asleep [OF interrupted(2,1)] interrupted show ?case by (blast intro: step_inside)
next
  case (clock s c cl k ts)
  note t = inv_In [OF clock(2,1)]
  from t(2) have "wp P m t (kept c (depth (thr s t))) (k ts) (returns c (depth (thr s t))) (gdepth g t) (B t)"
    by auto
  with clock t(1) show ?case by (blast intro: step_inside)
qed (blast intro: step_call step_sleep step_wake step_return)+

theorem step_preserves:
  assumes "sys_step F m ok s s'" "sys_inv P m g B s"
  shows "\<exists>g B. sys_inv P m g B s'"
proof -
  from assms(1) obtain t where "thread_step F m ok t s s'" by cases
  then show ?thesis by cases (use assms(2) step_access quiet_preserves in blast)+
qed

text \<open>What follows for every state the system reaches from a fresh mutex.\<close>

lemma fresh_inv: "p_inv P None v \<Longrightarrow> sys_inv P m None (\<lambda>_. False) (fresh_sys m v)"
  by (simp add: sys_inv_def fresh_sys_def thread_inv_def)

lemma reachable_inv:
  assumes "reachable F m ok (fresh_sys m v) s" "p_inv P None v"
  shows "\<exists>g B. sys_inv P m g B s"
  using assms(1)
proof (induction rule: reachable.induct)
  case start
  show ?case using fresh_inv [OF assms(2)] by blast
qed (blast dest: step_preserves)

lemma exclusion:
  assumes "reachable F m ok (fresh_sys m v) s" "p_inv P None v" "in_critical (thr s t)" "in_critical (thr s u)"
  shows "t = u"
  using reachable_inv [OF assms(1,2)] assms(3,4) by (blast dest: inv_exclusion)

lemma quiet_word:
  assumes "reachable F m ok (fresh_sys m v) s" "p_inv P None v" "\<forall>t. act (thr s t) = Idle"
  obtains g where "p_inv P g (smem s m)" "\<And>t. depth (thr s t) = gdepth g t"
proof -
  from reachable_inv [OF assms(1,2)] obtain g B where "sys_inv P m g B s" by blast
  then have "p_inv P g (smem s m)" "\<And>t. depth (thr s t) = gdepth g t"
    using assms(3) by (auto simp: sys_inv_def thread_inv_def)
  then show thesis by (rule that)
qed

lemma sleeper:
  assumes "reachable F m ok (fresh_sys m v) s" "p_inv P None v" "p_live P" "sleeps_on m (act (thr s t))"
    and "\<And>u c p. act (thr s u) \<noteq> In c p"
  obtains g where "p_inv P g (smem s m)" "contended (smem s m)" "\<And>u. gdepth g u \<le> depth (thr s u)"
proof -
  from reachable_inv [OF assms(1,2)] obtain g B where inv: "sys_inv P m g B s" by blast
  have "\<not> B u \<and> gdepth g u \<le> depth (thr s u)" for u
  proof -
    have "thread_inv P m u (gdepth g u) (B u) (thr s u)" using inv by (simp add: sys_inv_def)
    then show ?thesis using assms(5) [of u] kept_le [of _ "depth (thr s u)"]
      by (cases "act (thr s u)") (simp_all add: thread_inv_def, metis+)
  qed
  with inv assms(3,4) that show thesis unfolding sys_inv_def by blast
qed

end

end
