(* ===== verification/Mutex_Conc.thy ===== *)
theory Mutex_Conc
  imports Protocol
begin

text \<open>
  The three kinds of mutex under any interleaving. The protocol of a kind is the set of words its
  fields allow for every owner; the verification conditions of theory \<open>Protocol\<close> are discharged for
  each loop and each entry point of the code, which gives the interpretations at the end and with
  them mutual exclusion and the absence of lost wake-ups.
\<close>

section \<open>The protocol\<close>

fun owner_bits :: "mkind \<Rightarrow> cint \<Rightarrow> nat" where
  "owner_bits Normal t = 0"
| "owner_bits k t = unat t"

text \<open>How often one thread can hold a mutex: once, or 2048 times when it is recursive.\<close>

fun max_depth :: "mkind \<Rightarrow> nat" where
  "max_depth Recursive = 2048"
| "max_depth k = 1"

fun mutex_inv :: "mkind \<Rightarrow> bool \<Rightarrow> ghost \<Rightarrow> cint \<Rightarrow> bool" where
  "mutex_inv k s None v \<longleftrightarrow> v = enc 0 (kind_bits k) (shbit s) 0 0"
| "mutex_inv k s (Some (t, d)) v \<longleftrightarrow> valid_tid t \<and> 1 \<le> d \<and> d \<le> max_depth k \<and>
    (\<exists>st. (st = Suc 0 \<or> st = 2) \<and> v = enc (owner_bits k t) (kind_bits k) (shbit s) (d - 1) st)"

abbreviation shared_bits :: "bool \<Rightarrow> cint" where
  "shared_bits s \<equiv> enc 0 0 (shbit s) 0 0"

fun loop_pre :: "mkind \<Rightarrow> bool \<Rightarrow> bool \<Rightarrow> addr \<Rightarrow> cint \<Rightarrow> nat \<Rightarrow> nat \<Rightarrow> bool \<Rightarrow> label \<Rightarrow> bool" where
  "loop_pre k s live m t lo d b (L_normal_lock a sh) \<longleftrightarrow>
     k = Normal \<and> a = m \<and> sh = shared_bits s \<and> lo = d"
| "loop_pre k s live m t lo d b (L_timeout_normal a sh abstime) \<longleftrightarrow>
     k = Normal \<and> a = m \<and> sh = shared_bits s \<and> lo = d"
| "loop_pre k s live m t lo d b (L_recursive_increment a mv) \<longleftrightarrow>
     k = Recursive \<and> a = m \<and> \<not> b \<and> 1 \<le> d \<and> d < 2048"
| "loop_pre k s live m t lo d b (L_mutex_unlock a mv) \<longleftrightarrow>
     k = Recursive \<and> a = m \<and> \<not> b \<and> 2 \<le> d \<and> lo \<le> d - 1"
| "loop_pre k s live m t lo d b (L_mutex_lock a tid mtype sh mv) \<longleftrightarrow>
     k \<noteq> Normal \<and> a = m \<and> tid = t \<and> mtype = enc 0 (kind_bits k) (shbit s) 0 0 \<and> sh = shared_bits s \<and>
     d = 0 \<and> (\<exists>g. mutex_inv k s g mv)"
| "loop_pre k s live m t lo d b (L_timeout a tid mtype sh abstime mv) \<longleftrightarrow>
     \<not> live \<and> \<not> b \<and> k \<noteq> Normal \<and> a = m \<and> tid = t \<and> mtype = enc 0 (kind_bits k) (shbit s) 0 0 \<and>
     sh = shared_bits s \<and> d = 0 \<and> (\<exists>g. mutex_inv k s g mv)"
| "loop_pre k s live m t lo d b (L_cond_pulse a flags) \<longleftrightarrow> a \<noteq> m \<and> \<not> b"

fun loop_post :: "cint \<Rightarrow> nat \<Rightarrow> label \<Rightarrow> nat \<Rightarrow> cint \<Rightarrow> bool" where
  "loop_post t d (L_normal_lock a sh) d' r \<longleftrightarrow> r = 0 \<and> d' = Suc d"
| "loop_post t d (L_recursive_increment a mv) d' r \<longleftrightarrow> r = 0 \<and> d' = Suc d"
| "loop_post t d (L_mutex_lock a tid mtype sh mv) d' r \<longleftrightarrow> r = 0 \<and> d' = Suc d"
| "loop_post t d (L_mutex_unlock a mv) d' r \<longleftrightarrow> r = 0 \<and> d' = d - 1"
| "loop_post t d (L_cond_pulse a flags) d' r \<longleftrightarrow> d' = d"
| "loop_post t d l d' r \<longleftrightarrow> d' = (if r = 0 then Suc d else d)"

definition mutex_proto :: "mkind \<Rightarrow> bool \<Rightarrow> bool \<Rightarrow> addr \<Rightarrow> proto" where
  "mutex_proto k s live m = \<lparr>p_inv = mutex_inv k s, p_shared = s, p_live = live, p_pre = loop_pre k s live m, p_post = loop_post\<rparr>"

lemma mutex_proto_simps [simp]:
  "p_inv (mutex_proto k s live m) = mutex_inv k s" "p_live (mutex_proto k s live m) = live"
  "p_shared (mutex_proto k s live m) = s"
  by (simp_all add: mutex_proto_def)

lemma shared_bits_flag [simp]: "shared_bits s = 0 \<longleftrightarrow> \<not> s"
  by (cases s) (simp_all add: enc_def shbit_def)

text \<open>
  The discipline of the callers: a normal mutex, which does not know its owner, is unlocked only by
  a thread that holds it; a condition variable is not the mutex and is waited for with the mutex held.
  With \<open>live\<close>, timed locking is left to normal mutexes.
\<close>

fun client_ok :: "mkind \<Rightarrow> bool \<Rightarrow> addr \<Rightarrow> call \<Rightarrow> nat \<Rightarrow> bool" where
  "client_ok k live m Unlock n \<longleftrightarrow> (k = Normal \<longrightarrow> 0 < n)"
| "client_ok k live m (Timedlock ms) n \<longleftrightarrow> (live \<longrightarrow> k = Normal)"
| "client_ok k live m (Cond_wait cond) n \<longleftrightarrow> 0 < n \<and> m \<noteq> NULL \<and> cond \<noteq> NULL \<and> cond \<noteq> m"
| "client_ok k live m (Cond_timedwait cond abstime) n \<longleftrightarrow> 0 < n \<and> m \<noteq> NULL \<and> cond \<noteq> NULL \<and> cond \<noteq> m"
| "client_ok k live m (Cond_timedwait_monotonic cond abstime) n \<longleftrightarrow> 0 < n \<and> m \<noteq> NULL \<and> cond \<noteq> NULL \<and> cond \<noteq> m"
| "client_ok k live m (Cond_timedwait_relative cond reltime) n \<longleftrightarrow> 0 < n \<and> m \<noteq> NULL \<and> cond \<noteq> NULL \<and> cond \<noteq> m"
| "client_ok k live m (Cond_timeout cond msecs) n \<longleftrightarrow> 0 < n \<and> m \<noteq> NULL \<and> cond \<noteq> NULL \<and> cond \<noteq> m"
| "client_ok k live m (Cond_signal cond) n \<longleftrightarrow> cond \<noteq> m"
| "client_ok k live m (Cond_broadcast cond) n \<longleftrightarrow> cond \<noteq> m"
| "client_ok k live m c n \<longleftrightarrow> True"

section \<open>Ghost steps on encoded words\<close>

lemma locked_enc [enc_simps]: "fields_ok ow ty sh ct st \<Longrightarrow> locked (enc ow ty sh ct st) \<longleftrightarrow> st \<noteq> 0"
  unfolding locked_def by (simp add: enc_state) (simp add: enc_consts(10) enc_inject fields_ok_def)

lemma counter_enc [enc_simps]: "fields_ok ow ty sh ct st \<Longrightarrow> counter (enc ow ty sh ct st) = ct"
  unfolding counter_def by (simp add: enc_counter) (simp add: unat_enc fields_ok_def)

text \<open>What thread \<open>t\<close> can find in the word: it is free, \<open>t\<close>'s own, or another thread's.\<close>

lemma view_cases [case_names free mine other]:
  assumes "mutex_inv k s g v"
  obtains (free) "g = None" "v = enc 0 (kind_bits k) (shbit s) 0 0"
    | (mine) c st where "g = Some (t, Suc c)" "valid_tid t" "c < max_depth k" "st = Suc 0 \<or> st = 2"
      "v = enc (owner_bits k t) (kind_bits k) (shbit s) c st"
    | (other) u c st where "u \<noteq> t" "g = Some (u, Suc c)" "valid_tid u" "c < max_depth k" "st = Suc 0 \<or> st = 2"
      "v = enc (owner_bits k u) (kind_bits k) (shbit s) c st"
proof (cases g)
  case None
  with assms free show thesis by simp
next
  case (Some x)
  then obtain u d where g: "g = Some (u, d)" by (cases x) auto
  with assms obtain c where "d = Suc c" by (cases d) auto
  with g assms mine other show thesis by (cases "u = t") auto
qed

lemmas vc_simps = mutex_proto_def allowed_def next_ghost_def duty_def enc_simps enc_arith enc_inject fields_ok_def
  valid_tid_def Let_def

section \<open>The loops\<close>

lemma wp_normal_lock_loop:
  "lo = d \<Longrightarrow> valid_tid t \<Longrightarrow>
   wp (mutex_proto Normal s live m) m t lo (normal_lock_loop m (shared_bits s))
     (\<lambda>d' b' r. \<not> b' \<and> r = 0 \<and> d' = Suc d) d b"
  by (auto simp: normal_lock_loop_def vc_simps elim!: view_cases [where t = t])

lemma wp_timeout_normal_loop:
  "lo = d \<Longrightarrow> valid_tid t \<Longrightarrow>
   wp (mutex_proto Normal s live m) m t lo (timeout_normal_loop m (shared_bits s) abstime)
     (\<lambda>d' b' r. \<not> b' \<and> d' = (if r = 0 then Suc d else d)) d b"
  by (auto simp: timeout_normal_loop_def timespec_to_absolute_def vc_simps elim!: view_cases [where t = t]
      split: prod.splits)

lemma wp_recursive_increment_loop:
  "lo \<le> d \<Longrightarrow> valid_tid t \<Longrightarrow> 1 \<le> d \<Longrightarrow> d < 2048 \<Longrightarrow>
   wp (mutex_proto Recursive s live m) m t lo (recursive_increment_loop m mv)
     (\<lambda>d' b' r. \<not> b' \<and> r = 0 \<and> d' = Suc d) d False"
  by (auto simp: recursive_increment_loop_def vc_simps elim!: view_cases [where t = t])

lemma wp_mutex_unlock_loop:
  "valid_tid t \<Longrightarrow> 2 \<le> d \<Longrightarrow> lo \<le> d - 1 \<Longrightarrow>
   wp (mutex_proto Recursive s live m) m t lo (mutex_unlock_loop m mv)
     (\<lambda>d' b' r. \<not> b' \<and> r = 0 \<and> d' = d - 1) d False"
  by (auto simp: mutex_unlock_loop_def vc_simps elim!: view_cases [where t = t])

text \<open>
  The locking loop of the kinds that record their owner: \<open>free_bits k s\<close> is its local \<open>mtype\<close>. A jump
  to its head needs a value that was read from the mutex; then come the three branches of its body.
\<close>

abbreviation free_bits :: "mkind \<Rightarrow> bool \<Rightarrow> cint" where
  "free_bits k s \<equiv> enc 0 (kind_bits k) (shbit s) 0 0"

definition lock_post :: "nat \<Rightarrow> bool \<Rightarrow> cint \<Rightarrow> bool" where
  "lock_post d b r \<longleftrightarrow> \<not> b \<and> r = 0 \<and> d = Suc 0"

definition timed_post :: "nat \<Rightarrow> bool \<Rightarrow> cint \<Rightarrow> bool" where
  "timed_post d b r \<longleftrightarrow> \<not> b \<and> d = (if r = 0 then Suc 0 else 0)"

lemma wp_lock_reload [simp]:
  "k \<noteq> Normal \<Longrightarrow> wp (mutex_proto k s live m) m t 0
     (Load m (\<lambda>mv. Call (L_mutex_lock m t (free_bits k s) (shared_bits s) mv) Return)) lock_post 0 b"
  by (auto simp: mutex_proto_def lock_post_def)

lemma wp_lock_wait [simp]:
  "k \<noteq> Normal \<Longrightarrow> contended mv \<Longrightarrow> wp (mutex_proto k s live m) m t 0
     (mutex_lock_wait m t (free_bits k s) (shared_bits s) mv) lock_post 0 b"
  by (auto simp: mutex_lock_wait_def simp del: wp.simps(2))

lemma kind_facts:
  "kind_bits k < 4" "k \<noteq> Normal \<Longrightarrow> kind_bits k \<noteq> 0" "k \<noteq> Normal \<Longrightarrow> owner_bits k t = unat t"
  "c < max_depth k \<Longrightarrow> c < 2048" "0 < max_depth k" "valid_tid t \<Longrightarrow> owner_bits k t < 65536"
  by (cases k; simp add: valid_tid_def)+

lemma held_fields:
  "valid_tid t \<Longrightarrow> c < max_depth k \<Longrightarrow> st < 4 \<Longrightarrow>
   fields_ok (owner_bits k t) (kind_bits k) (shbit s) c st"
  by (auto simp: fields_ok_def kind_facts)

lemma free_fields: "fields_ok 0 (kind_bits k) (shbit s) 0 0"
  by (auto simp: fields_ok_def kind_facts)

lemma acquire_step:
  fixes k s
  assumes "valid_tid t" "st = Suc 0 \<or> st = 2"
  defines "v' \<equiv> enc (owner_bits k t) (kind_bits k) (shbit s) 0 st"
  shows "next_ghost t None v v' = Some (t, 1)" "allowed (mutex_proto k s live m) t None v v'"
proof -
  have "fields_ok (owner_bits k t) (kind_bits k) (shbit s) 0 st"
    using assms by (intro held_fields) (auto simp: kind_facts)
  then have "locked v'" using assms(2) by (auto simp: v'_def enc_simps)
  then show 1: "next_ghost t None v v' = Some (t, 1)" by (simp add: next_ghost_def)
  show "allowed (mutex_proto k s live m) t None v v'"
    unfolding allowed_def 1 using assms kind_facts(5) [of k] by (auto simp: mutex_proto_def v'_def Suc_le_eq)
qed

lemma held_step:
  fixes k s
  assumes "valid_tid u" "c < max_depth k" "c' < max_depth k" "st = Suc 0 \<or> st = 2" "st' = Suc 0 \<or> st' = 2"
    and "u = t \<or> c' = c \<and> (st = 2 \<longrightarrow> st' = 2)"
  defines "v \<equiv> enc (owner_bits k u) (kind_bits k) (shbit s) c st"
    and "v' \<equiv> enc (owner_bits k u) (kind_bits k) (shbit s) c' st'"
  shows "next_ghost t (Some (u, Suc c)) v v' = Some (u, Suc c')"
    "allowed (mutex_proto k s live m) t (Some (u, Suc c)) v v'"
proof -
  have "fields_ok (owner_bits k u) (kind_bits k) (shbit s) c st"
    "fields_ok (owner_bits k u) (kind_bits k) (shbit s) c' st'"
    using assms by (auto intro!: held_fields)
  then have "locked v'" "counter v = c" "counter v' = c'" "contended v \<longleftrightarrow> st = 2" "contended v' \<longleftrightarrow> st' = 2"
    using assms(4,5) by (auto simp: v_def v'_def enc_simps)
  then show 1: "next_ghost t (Some (u, Suc c)) v v' = Some (u, Suc c')" by (simp add: next_ghost_def)
  show "allowed (mutex_proto k s live m) t (Some (u, Suc c)) v v'"
    unfolding allowed_def 1 using assms \<open>contended v \<longleftrightarrow> st = 2\<close> \<open>contended v' \<longleftrightarrow> st' = 2\<close>
    by (auto simp: mutex_proto_def v'_def Suc_le_eq)
qed

lemma release_step:
  assumes "u = t"
  shows "next_ghost t (Some (u, Suc c)) v (free_bits k s) = None"
    "allowed (mutex_proto k s live m) t (Some (u, Suc c)) v (free_bits k s)"
proof -
  show 1: "next_ghost t (Some (u, Suc c)) v (free_bits k s) = None"
    by (simp add: next_ghost_def enc_simps free_fields)
  show "allowed (mutex_proto k s live m) t (Some (u, Suc c)) v (free_bits k s)"
    unfolding allowed_def 1 using assms by (auto simp: mutex_proto_def)
qed

lemma free_neq_held:
  assumes "valid_tid t" "c < max_depth k" "st = Suc 0 \<or> st = 2"
  shows "enc (owner_bits k t) (kind_bits k) (shbit s) c st \<noteq> free_bits k s"
  using enc_inject [OF held_fields [OF assms(1,2), of st] free_fields] assms(3) by auto

lemma free_ghost: "mutex_inv k s g (free_bits k s) \<Longrightarrow> g = None"
  by (erule view_cases [where t = 0]) (simp, (metis free_neq_held)+)

lemma held_ghost:
  assumes "mutex_inv k s g (enc (owner_bits k u) (kind_bits k) (shbit s) c st)" "k \<noteq> Normal"
    "valid_tid u" "c < max_depth k" "st = Suc 0 \<or> st = 2"
  shows "g = Some (u, Suc c)"
  using assms(1)
proof (cases rule: view_cases [where t = u])
  case free
  with assms free_neq_held show ?thesis by metis
next
  case (mine c' st')
  have "st < 4" "st' < 4" using assms(5) mine(4) by auto
  with mine assms(3,4) have "c' = c" by (simp add: enc_inject held_fields)
  with mine show ?thesis by simp
next
  case (other x c' st')
  have "st < 4" "st' < 4" using assms(5) other(5) by auto
  with other assms(3,4) have "owner_bits k x = owner_bits k u" by (simp add: enc_inject held_fields)
  with assms(2) have "x = u" by (simp add: kind_facts word_unat_eq_iff)
  with other show ?thesis by simp
qed

text \<open>The four compare-and-swaps of the code, each on a word of the protocol.\<close>

lemma wp_cas_free:
  assumes t: "valid_tid t" "st = Suc 0 \<or> st = 2"
    and "lo \<le> d" "wp (mutex_proto k s live m) m t lo (f 1) Q d b"
    and "d = 0 \<Longrightarrow> wp (mutex_proto k s live m) m t lo (f 0) Q (Suc 0) (live \<and> b \<and> st = Suc 0)"
  shows "wp (mutex_proto k s live m) m t lo
    (Cmpxchg (free_bits k s) (enc (owner_bits k t) (kind_bits k) (shbit s) 0 st) m f) Q d b"
proof -
  have "duty (mutex_proto k s live m) b (free_bits k s)
      (enc (owner_bits k t) (kind_bits k) (shbit s) 0 st) = (live \<and> b \<and> st = Suc 0)"
    using t by (auto simp: duty_def mutex_proto_def enc_simps held_fields free_fields kind_facts)
  with assms acquire_step [OF t] show ?thesis
    by (auto simp: mutex_proto_def dest!: free_ghost)
qed

lemma wp_cas_contend:
  assumes "valid_tid u" "k \<noteq> Normal" "c < max_depth k" "lo \<le> d"
    and "wp (mutex_proto k s live m) m t lo (f 1) Q d b"
    and "wp (mutex_proto k s live m) m t lo (f 0) Q d False"
  shows "wp (mutex_proto k s live m) m t lo
    (Cmpxchg (enc (owner_bits k u) (kind_bits k) (shbit s) c (Suc 0))
             (enc (owner_bits k u) (kind_bits k) (shbit s) c 2) m f) Q d b"
proof -
  have "\<not> duty (mutex_proto k s live m) b v (enc (owner_bits k u) (kind_bits k) (shbit s) c 2)" for v
    using assms by (simp add: duty_def enc_simps held_fields)
  with assms held_step [OF assms(1,3,3), of "Suc 0" 2 t] show ?thesis
    by (auto simp: mutex_proto_def dest!: held_ghost)
qed

lemma acquire_words:
  assumes "valid_tid t" "k \<noteq> Normal"
  shows "MUTEX_OWNER_TO_BITS t OR free_bits k s OR MUTEX_STATE_BITS_LOCKED_UNCONTENDED =
      enc (owner_bits k t) (kind_bits k) (shbit s) 0 (Suc 0)"
    and "MUTEX_OWNER_TO_BITS t OR free_bits k s OR MUTEX_STATE_BITS_LOCKED_CONTENDED =
      enc (owner_bits k t) (kind_bits k) (shbit s) 0 2"
  using assms by (simp_all add: enc_acquire kind_facts valid_tid_def)

lemma mutex_lock_loop_ok:
  assumes t: "valid_tid t" and k: "k \<noteq> Normal" and mv: "mutex_inv k s g mv"
  shows "wp (mutex_proto k s live m) m t 0
     (mutex_lock_loop m t (free_bits k s) (shared_bits s) mv) lock_post 0 b"
proof -
  have held: ?thesis if u: "valid_tid u" and c: "c < max_depth k" and st: "st = Suc 0 \<or> st = 2"
    and mv: "mv = enc (owner_bits k u) (kind_bits k) (shbit s) c st" for u c st
  proof -
    have ok: "fields_ok (owner_bits k u) (kind_bits k) (shbit s) c st"
      "fields_ok (owner_bits k u) (kind_bits k) (shbit s) c 2"
      using u c st by (auto intro: held_fields)
    have "mv \<noteq> free_bits k s" unfolding mv using u c st by (rule free_neq_held)
    with ok st show ?thesis
      by (auto simp: mutex_lock_loop_def mv enc_simps k Let_def u c simp del: wp.simps intro!: wp_cas_contend)
  qed
  from mv show ?thesis
  proof (cases rule: view_cases [where t = t])
    case free
    with t k show ?thesis
      by (auto simp: mutex_lock_loop_def acquire_words simp del: wp.simps intro!: wp_cas_free)
         (simp add: lock_post_def)
  qed (use held in blast)+
qed


text \<open>The timed loop, outside the tracking of duties: its early returns do not hand them on.\<close>

lemma wp_timeout_reload [simp]:
  "k \<noteq> Normal \<Longrightarrow> wp (mutex_proto k s False m) m t 0
     (Load m (\<lambda>mv. Call (L_timeout m t (free_bits k s) (shared_bits s) abstime mv) Return)) timed_post 0 False"
  by (auto simp: mutex_proto_def timed_post_def)

lemma wp_timeout_wait:
  "k \<noteq> Normal \<Longrightarrow> mutex_inv k s g mv \<Longrightarrow> wp (mutex_proto k s False m) m t 0
     (timeout_wait m t (free_bits k s) (shared_bits s) abstime mv) timed_post 0 False"
  by (auto simp: timeout_wait_def timespec_to_absolute_def mutex_proto_def timed_post_def split: prod.splits)

lemma timeout_loop_ok:
  assumes t: "valid_tid t" and k: "k \<noteq> Normal" and mv: "mutex_inv k s g mv"
  shows "wp (mutex_proto k s False m) m t 0
     (timeout_loop m t (free_bits k s) (shared_bits s) abstime mv) timed_post 0 False"
proof -
  have reload: "wp (mutex_proto k s False m) m t 0
      (Load m (\<lambda>mv. timeout_wait m t (free_bits k s) (shared_bits s) abstime mv)) timed_post 0 False"
    using wp_timeout_wait [OF k] by (auto simp: mutex_proto_def)
  have held: ?thesis if u: "valid_tid u" and c: "c < max_depth k" and st: "st = Suc 0 \<or> st = 2"
    and mv': "mv = enc (owner_bits k u) (kind_bits k) (shbit s) c st" for u c st
  proof -
    have ok: "fields_ok (owner_bits k u) (kind_bits k) (shbit s) c st"
      using u c st by (auto intro: held_fields)
    have "mv \<noteq> free_bits k s" unfolding mv' using u c st by (rule free_neq_held)
    moreover have "mutex_inv k s (Some (u, Suc c)) (enc (owner_bits k u) (kind_bits k) (shbit s) c 2)"
      using u c by auto
    then have "wp (mutex_proto k s False m) m t 0 (timeout_wait m t (free_bits k s) (shared_bits s) abstime
        (enc (owner_bits k u) (kind_bits k) (shbit s) c 2)) timed_post 0 False"
      by (rule wp_timeout_wait [OF k])
    ultimately show ?thesis
      using ok st reload u c
      by (auto simp: timeout_loop_def mv' enc_simps k Let_def simp del: wp.simps intro!: wp_cas_contend)
  qed
  from mv show ?thesis
  proof (cases rule: view_cases [where t = t])
    case free
    have "wp (mutex_proto k s False m) m t 0 (timespec_to_absolute abstime CLOCK_MONOTONIC (\<lambda>(rc, ts).
        if sint rc < 0 then Return EBUSY
        else Load m (\<lambda>mv. Call (L_timeout m t (free_bits k s) (shared_bits s) abstime mv) Return)))
        timed_post 0 False"
      using wp_timeout_reload [OF k]
      by (auto simp: timespec_to_absolute_def split: prod.splits simp del: wp.simps(2)) (simp add: timed_post_def)
    with t k free show ?thesis
      by (auto simp: timeout_loop_def acquire_words simp del: wp.simps intro!: wp_cas_free)
         (simp add: timed_post_def)
  qed (use held in blast)+
qed

lemma loops_ok:
  assumes "loop_pre k s live m t lo d b l" "valid_tid t" "lo \<le> d"
  shows "wp (mutex_proto k s live m) m t lo (loop_body l) (\<lambda>d' b' r. \<not> b' \<and> loop_post t d l d' r) d b"
proof (cases l)
  case (L_mutex_lock a tid mtype sh mv)
  then obtain g where "mutex_inv k s g mv" using assms(1) by auto
  with L_mutex_lock assms mutex_lock_loop_ok [of t k s g mv live m b] show ?thesis
    by (simp add: lock_post_def [abs_def])
next
  case (L_timeout a tid mtype sh abstime mv)
  then obtain g where "mutex_inv k s g mv" using assms(1) by auto
  with L_timeout assms timeout_loop_ok [of t k s g mv m abstime] show ?thesis
    by (simp add: timed_post_def [abs_def])
next
  case (L_cond_pulse a flags)
  with assms show ?thesis by (auto simp: cond_pulse_loop_def mutex_proto_def Let_def)
qed (use assms wp_normal_lock_loop wp_timeout_normal_loop wp_recursive_increment_loop wp_mutex_unlock_loop in \<open>auto\<close>)

section \<open>The entry points\<close>

text \<open>What the entry points read off a word of the protocol.\<close>

lemma word_fields:
  assumes "mutex_inv k s g v"
  shows "v AND MUTEX_TYPE_MASK = enc 0 (kind_bits k) 0 0 0" "v AND MUTEX_SHARED_MASK = shared_bits s"
proof -
  have "\<exists>ow ct st. v = enc ow (kind_bits k) (shbit s) ct st \<and> fields_ok ow (kind_bits k) (shbit s) ct st"
    using assms by (cases rule: view_cases [where t = 0]) (use free_fields held_fields in fastforce)+
  then show "v AND MUTEX_TYPE_MASK = enc 0 (kind_bits k) 0 0 0" "v AND MUTEX_SHARED_MASK = shared_bits s"
    by (auto simp: enc_simps)
qed

lemma word_owner:
  assumes "mutex_inv k s g v" "k \<noteq> Normal" "valid_tid t"
  shows "t = MUTEX_OWNER_FROM_BITS v \<longleftrightarrow> 0 < gdepth g t"
  using assms(1)
proof (cases rule: view_cases [where t = t])
  case free
  with assms(3) show ?thesis by (simp add: enc_simps free_fields valid_tid_def)
next
  case (mine c st)
  then have "fields_ok (owner_bits k t) (kind_bits k) (shbit s) c st" by (auto intro: held_fields)
  with mine assms(2) show ?thesis by (simp add: enc_simps kind_facts)
next
  case (other u c st)
  then have "fields_ok (owner_bits k u) (kind_bits k) (shbit s) c st" by (auto intro: held_fields)
  with other assms(2) show ?thesis by (auto simp: enc_simps kind_facts dest: word32_eqI)
qed

lemma word_count:
  assumes "mutex_inv k s (Some (t, d)) v"
  shows "MUTEX_COUNTER_BITS_WILL_OVERFLOW v \<longleftrightarrow> d = 2048" "MUTEX_COUNTER_BITS_IS_ZERO v \<longleftrightarrow> d = 1"
proof -
  from assms obtain c st where v: "d = Suc c" "c < max_depth k" "st = Suc 0 \<or> st = 2" "valid_tid t"
    "v = enc (owner_bits k t) (kind_bits k) (shbit s) c st"
    by (cases d) auto
  then have "fields_ok (owner_bits k t) (kind_bits k) (shbit s) c st" by (auto intro: held_fields)
  with v show "MUTEX_COUNTER_BITS_WILL_OVERFLOW v \<longleftrightarrow> d = 2048" "MUTEX_COUNTER_BITS_IS_ZERO v \<longleftrightarrow> d = 1"
    by (simp_all add: enc_simps)
qed

lemma wp_Load:
  "lo \<le> d \<Longrightarrow> (\<And>g v. mutex_inv k s g v \<Longrightarrow> gdepth g t = d \<Longrightarrow> wp (mutex_proto k s live m) m t lo (f v) Q d b) \<Longrightarrow>
   wp (mutex_proto k s live m) m t lo (Load m f) Q d b"
  by (auto simp: mutex_proto_def)

text \<open>A normal mutex.\<close>

lemma wp_cas_normal:
  assumes "valid_tid t" "lo \<le> d" "wp (mutex_proto Normal s live m) m t lo (f 1) Q d False"
    "d = 0 \<Longrightarrow> wp (mutex_proto Normal s live m) m t lo (f 0) Q (Suc 0) False"
  shows "wp (mutex_proto Normal s live m) m t lo
    (Cmpxchg (shared_bits s) (enc 0 0 (shbit s) 0 (Suc 0)) m f) Q d False"
  using wp_cas_free [of t "Suc 0" lo d Normal s live m f Q False] assms by simp

lemma normal_lock_ok:
  assumes "valid_tid t" "m \<noteq> NULL"
  shows "wp (mutex_proto Normal s live m) m t d (pthread_mutex_lock m) (\<lambda>d' b r. \<not> b \<and> d' = Suc d \<and> r = 0) d False"
  unfolding pthread_mutex_lock_def pthread_mutex_lock_impl_def using assms
  by (auto simp: word_fields enc_simps normal_lock_def Let_def simp del: wp.simps intro!: wp_Load wp_cas_normal)
     (auto simp: mutex_proto_def)

lemma normal_trylock_ok:
  assumes "valid_tid t" "m \<noteq> NULL"
  shows "wp (mutex_proto Normal s live m) m t d (pthread_mutex_trylock m) (returns Trylock d) d False"
  unfolding pthread_mutex_trylock_def pthread_mutex_trylock_impl_def using assms
  by (auto simp: word_fields enc_simps Let_def simp del: wp.simps intro!: wp_Load wp_cas_normal)
     (auto simp: mutex_proto_def)

lemma normal_timedlock_ok:
  assumes "valid_tid t" "m \<noteq> NULL"
  shows "wp (mutex_proto Normal s live m) m t d (pthread_mutex_lock_timeout_np m ms) (returns (Timedlock ms) d) d False"
  unfolding pthread_mutex_lock_timeout_np_def pthread_mutex_lock_timeout_np_impl_def using assms
  by (auto simp: word_fields enc_simps timespec_to_relative_msec_def Let_def simp del: wp.simps
      simp: wp.simps(9) intro!: wp_Load wp_cas_normal)
     (auto simp: mutex_proto_def)

text \<open>
  Unlocking takes the state from 2 to 1 and then stores 0: between the two accesses the mutex is
  still held, and the duty to wake a sleeper is on the unlocking thread.
\<close>

lemma normal_mine:
  assumes "mutex_inv Normal s g v" "gdepth g t = d" "0 < d"
  obtains st where "g = Some (t, Suc 0)" "d = Suc 0" "st = Suc 0 \<or> st = 2" "v = enc 0 0 (shbit s) 0 st"
  using assms by (cases rule: view_cases [where t = t]) auto

lemma normal_release:
  assumes "valid_tid t" "lo = 0" "d = Suc 0"
  shows "wp (mutex_proto Normal s live m) m t lo
     (Store m (shared_bits s) (Futex_wake m (shared_bits s) 1 (\<lambda>_. Return 0))) (\<lambda>d b r. \<not> b \<and> d = 0) d b"
  using assms release_step(1) [where k = Normal and s = s and c = 0 and t = t]
    release_step(2) [where k = Normal and s = s and live = live and m = m and c = 0 and t = t]
  by (auto simp: mutex_proto_def elim: normal_mine)

lemma normal_decrement:
  assumes "valid_tid t" "mutex_inv Normal s g v" "gdepth g t = Suc 0"
  shows "allowed (mutex_proto Normal s live m) t g v (v - 1)"
    "v = enc 0 0 (shbit s) 0 (Suc 0) \<Longrightarrow> gdepth (next_ghost t g v (v - 1)) t = 0 \<and>
       \<not> duty (mutex_proto Normal s live m) False v (v - 1)"
    "v \<noteq> enc 0 0 (shbit s) 0 (Suc 0) \<Longrightarrow> gdepth (next_ghost t g v (v - 1)) t = Suc 0"
proof -
  obtain st where v: "g = Some (t, Suc 0)" "st = Suc 0 \<or> st = 2" "v = enc 0 0 (shbit s) 0 st"
    using normal_mine [OF assms(2,3)] by auto
  note rel = release_step(1) [where k = Normal and s = s and c = 0 and t = t]
    release_step(2) [where k = Normal and s = s and live = live and m = m and c = 0 and t = t]
  note held = held_step(1) [of t 0 Normal 0 2 "Suc 0" t s] held_step(2) [of t 0 Normal 0 2 "Suc 0" t s live m]
  show "allowed (mutex_proto Normal s live m) t g v (v - 1)"
    using v rel(2) held(2) assms(1) by (auto simp: enc_state_dec numeral_2_eq_2)
  show "v = enc 0 0 (shbit s) 0 (Suc 0) \<Longrightarrow> gdepth (next_ghost t g v (v - 1)) t = 0 \<and>
      \<not> duty (mutex_proto Normal s live m) False v (v - 1)"
    using v rel(1) free_fields [of Normal s] by (auto simp: enc_state_dec duty_def enc_simps fields_ok_def)
  show "v \<noteq> enc 0 0 (shbit s) 0 (Suc 0) \<Longrightarrow> gdepth (next_ghost t g v (v - 1)) t = Suc 0"
    using v held(1) assms(1) by (auto simp: enc_state_dec numeral_2_eq_2)
qed

text \<open>An unlock by a thread that holds the mutex succeeds.\<close>

abbreviation unlocks :: "nat \<Rightarrow> nat \<Rightarrow> bool \<Rightarrow> cint \<Rightarrow> bool" where
  "unlocks n \<equiv> \<lambda>d b r. returns Unlock n d b r \<and> (0 < n \<longrightarrow> r = 0)"

lemma normal_unlock_ok:
  assumes "valid_tid t" "m \<noteq> NULL" "0 < d"
  shows "wp (mutex_proto Normal s live m) m t (d - 1) (pthread_mutex_unlock m) (unlocks d) d False"
proof -
  have unlock: "wp (mutex_proto Normal s live m) m t 0 (normal_unlock m (shared_bits s)) (\<lambda>d b r. \<not> b \<and> d = 0)
      (Suc 0) False"
    using normal_decrement [OF assms(1), of s] normal_release [OF assms(1) refl refl, of s live m]
    by (auto simp: normal_unlock_def enc_simps simp del: wp.simps(3,8))
  then have "wp (mutex_proto Normal s live m) m t 0 (bind (normal_unlock m (shared_bits s)) (\<lambda>_. Return 0))
      (unlocks (Suc 0)) (Suc 0) False"
    by (rule wp_bind) simp
  moreover have "mutex_inv Normal s g v \<Longrightarrow> gdepth g t = d \<Longrightarrow> d = Suc 0" for g v
    using assms(3) by (auto elim: normal_mine)
  ultimately show ?thesis
    unfolding pthread_mutex_unlock_def pthread_mutex_unlock_impl_def using assms(2)
    by (cases "d = Suc 0")
       (auto simp: word_fields enc_simps simp del: wp.simps split del: if_split intro!: wp_Load)
qed

text \<open>
  Recursive and error-checking mutexes. \<open>locks k must n\<close> is what all three locking calls promise to a
  thread that holds the mutex \<open>n\<close> times; a call that \<open>must\<close> succeed does so below the limit of the kind.
\<close>

definition locks :: "mkind \<Rightarrow> bool \<Rightarrow> nat \<Rightarrow> nat \<Rightarrow> bool \<Rightarrow> cint \<Rightarrow> bool" where
  "locks k must n d b r \<longleftrightarrow> \<not> b \<and> d = (if r = 0 then Suc n else n) \<and> (must \<and> n < max_depth k \<longrightarrow> r = 0)"

lemma wp_relock:
  assumes "k \<noteq> Normal" "mutex_inv k s g v" "gdepth g t = d" "0 < d"
  shows "wp (mutex_proto k s live m) m t d (recursive_increment m v (enc 0 (kind_bits k) 0 0 0)) (locks k must d) d False"
proof -
  have g: "g = Some (t, d)" using assms(3,4) by (cases g) (auto split: if_splits)
  then have "MUTEX_COUNTER_BITS_WILL_OVERFLOW v \<longleftrightarrow> d = 2048" "d \<le> max_depth k"
    using assms(2) by (auto simp: word_count)
  with assms(1,4) show ?thesis
    by (cases k) (auto simp: recursive_increment_def enc_simps mutex_proto_def locks_def)
qed

lemma owned_free_words:
  "kind_bits k < 4" "enc 0 (kind_bits k) 0 0 0 OR shared_bits s = free_bits k s"
  "k \<noteq> Normal \<Longrightarrow> enc 0 (kind_bits k) 0 0 0 \<noteq> MUTEX_TYPE_BITS_NORMAL"
  by (cases k; simp add: enc_simps)+

lemma owned_acquire:
  assumes "valid_tid t" "k \<noteq> Normal" "wp (mutex_proto k s live m) m t 0 (f 1) (locks k must 0) 0 False"
    "f 0 = Membar (Return 0)"
  shows "wp (mutex_proto k s live m) m t 0
    (Cmpxchg (free_bits k s) (MUTEX_OWNER_TO_BITS t OR free_bits k s OR MUTEX_STATE_BITS_LOCKED_UNCONTENDED) m f)
    (locks k must 0) 0 False"
  unfolding acquire_words [OF assms(1,2)] by (rule wp_cas_free) (use assms in \<open>simp_all add: locks_def\<close>)

lemma lock_post_locks:
  "lock_post d b r \<Longrightarrow> locks k must 0 d b r" "timed_post d b r \<Longrightarrow> locks k False 0 d b r"
  by (auto simp: lock_post_def timed_post_def locks_def)

text \<open>The common shape of the three locking calls: relock, or go on to acquire.\<close>

lemma wp_owned_entry:
  assumes "valid_tid t" "k \<noteq> Normal"
    and "\<And>g v. d = 0 \<Longrightarrow> mutex_inv k s g v \<Longrightarrow> gdepth g t = 0 \<Longrightarrow>
      wp (mutex_proto k s live m) m t 0 (B v (enc 0 (kind_bits k) 0 0 0) (shared_bits s) t) (locks k must 0) 0 False"
  shows "wp (mutex_proto k s live m) m t d (Load m (\<lambda>mvalue.
      let mtype = mvalue AND MUTEX_TYPE_MASK; shared = mvalue AND MUTEX_SHARED_MASK in
      if mtype = MUTEX_TYPE_BITS_NORMAL then A mvalue mtype shared
      else Get_tid (\<lambda>tid. if tid = MUTEX_OWNER_FROM_BITS mvalue then recursive_increment m mvalue mtype
        else B mvalue mtype shared tid))) (locks k must d) d False"
proof (rule wp_Load)
  fix g v assume v: "mutex_inv k s g v" "gdepth g t = d"
  show "wp (mutex_proto k s live m) m t d (let mtype = v AND MUTEX_TYPE_MASK; shared = v AND MUTEX_SHARED_MASK in
      if mtype = MUTEX_TYPE_BITS_NORMAL then A v mtype shared
      else Get_tid (\<lambda>tid. if tid = MUTEX_OWNER_FROM_BITS v then recursive_increment m v mtype
        else B v mtype shared tid)) (locks k must d) d False"
    using wp_relock [OF assms(2) v] assms(3) [OF _ v(1)] v assms(1,2)
    by (cases "d = 0")
       (auto simp: word_fields [OF v(1)] word_owner [OF v(1)] owned_free_words Let_def split del: if_split)
qed simp

lemma owned_trylock_ok:
  assumes "valid_tid t" "k \<noteq> Normal" "m \<noteq> NULL"
  shows "wp (mutex_proto k s live m) m t d (pthread_mutex_trylock m) (locks k False d) d False"
  unfolding pthread_mutex_trylock_def pthread_mutex_trylock_impl_def bind_Return if_not_P [OF assms(3)]
proof (rule wp_owned_entry [OF assms(1,2)])
  fix v
  show "wp (mutex_proto k s live m) m t 0
     (let mtype = enc 0 (kind_bits k) 0 0 0 OR shared_bits s OR MUTEX_STATE_BITS_UNLOCKED;
          mvalue = MUTEX_OWNER_TO_BITS t OR mtype OR MUTEX_STATE_BITS_LOCKED_UNCONTENDED
      in Cmpxchg mtype mvalue m (\<lambda>r. if r = 0 then Membar (Return 0) else Return EBUSY)) (locks k False 0) 0 False"
    using owned_acquire [OF assms(1,2), where must = False]
    by (simp add: owned_free_words enc_simps Let_def locks_def del: wp.simps(4))
qed

lemma lock_loop_entry:
  "k \<noteq> Normal \<Longrightarrow> mutex_inv k s g v \<Longrightarrow> wp (mutex_proto k s live m) m t 0
     (Call (L_mutex_lock m t (free_bits k s) (shared_bits s) v) Return) (locks k must 0) 0 b"
  by (auto simp: mutex_proto_def locks_def)

lemma timeout_loop_entry:
  "k \<noteq> Normal \<Longrightarrow> mutex_inv k s g v \<Longrightarrow> wp (mutex_proto k s False m) m t 0
     (Call (L_timeout m t (free_bits k s) (shared_bits s) abstime v) Return) (locks k False 0) 0 False"
  by (auto simp: mutex_proto_def locks_def)

lemma owned_lock_ok:
  assumes "valid_tid t" "k \<noteq> Normal" "m \<noteq> NULL"
  shows "wp (mutex_proto k s live m) m t d (pthread_mutex_lock m) (locks k True d) d False"
  unfolding pthread_mutex_lock_def pthread_mutex_lock_impl_def bind_Return if_not_P [OF assms(3)]
proof (rule wp_owned_entry [OF assms(1,2)])
  fix g v assume v: "mutex_inv k s g v"
  show "wp (mutex_proto k s live m) m t 0
     (let mtype = enc 0 (kind_bits k) 0 0 0 OR shared_bits s in
      if v = mtype then
        (let newval = MUTEX_OWNER_TO_BITS t OR mtype OR MUTEX_STATE_BITS_LOCKED_UNCONTENDED in
         Cmpxchg v newval m (\<lambda>r. if r = 0 then Membar (Return 0)
           else Load m (\<lambda>mvalue. Call (L_mutex_lock m t mtype (shared_bits s) mvalue) Return)))
      else Call (L_mutex_lock m t mtype (shared_bits s) v) Return) (locks k True 0) 0 False"
    using lock_loop_entry [OF assms(2) v, where must = True and b = False] owned_acquire [OF assms(1,2), where must = True]
      wp_mono [OF wp_lock_reload [OF assms(2)] lock_post_locks(1)]
    by (simp add: owned_free_words Let_def del: wp.simps)
qed

lemma owned_timedlock_ok:
  assumes "valid_tid t" "k \<noteq> Normal" "m \<noteq> NULL"
  shows "wp (mutex_proto k s False m) m t d (pthread_mutex_lock_timeout_np m ms) (locks k False d) d False"
  unfolding pthread_mutex_lock_timeout_np_def pthread_mutex_lock_timeout_np_impl_def
    timespec_to_relative_msec_def bind_Return if_not_P [OF assms(3)] wp.simps(9)
proof (intro conjI allI, simp, rule wp_owned_entry [OF assms(1,2)])
  fix ts g v assume v: "mutex_inv k s g v"
  show "wp (mutex_proto k s False m) m t 0
     (let mtype = enc 0 (kind_bits k) 0 0 0 OR shared_bits s in
      if v = mtype then
        (let mvalue = MUTEX_OWNER_TO_BITS t OR mtype OR MUTEX_STATE_BITS_LOCKED_UNCONTENDED in
         Cmpxchg mtype mvalue m (\<lambda>r. if r = 0 then Membar (Return 0)
           else Load m (\<lambda>mvalue. Call (L_timeout m t mtype (shared_bits s) (timespec_add_msec ts ms) mvalue) Return)))
      else Call (L_timeout m t mtype (shared_bits s) (timespec_add_msec ts ms) v) Return) (locks k False 0) 0 False"
    using timeout_loop_entry [OF assms(2) v] owned_acquire [OF assms(1,2)]
      wp_mono [OF wp_timeout_reload [OF assms(2)] lock_post_locks(2)]
    by (simp add: owned_free_words Let_def del: wp.simps)
qed

lemma wp_owned_release:
  "wp (mutex_proto k s live m) m t 0 (Swap (free_bits k s) m (\<lambda>mvalue.
      if contended mvalue then Futex_wake m (shared_bits s) 1 (\<lambda>_. Return 0) else Return 0))
      (unlocks (Suc 0)) (Suc 0) False"
proof -
  have g: "g = Some (t, Suc 0)" if "gdepth g t = Suc 0" for g
    using that by (cases g) (auto split: if_splits)
  show ?thesis
    using release_step(1) [where k = k and s = s and c = 0 and t = t]
      release_step(2) [where k = k and s = s and live = live and m = m and c = 0 and t = t]
    by (auto simp: duty_def enc_simps free_fields dest!: g)
qed

lemma owned_unlock_ok:
  assumes "valid_tid t" "k \<noteq> Normal" "m \<noteq> NULL"
  shows "wp (mutex_proto k s live m) m t (d - 1) (pthread_mutex_unlock m) (unlocks d) d False"
  unfolding pthread_mutex_unlock_def pthread_mutex_unlock_impl_def if_not_P [OF assms(3)]
proof (rule wp_Load)
  fix g v assume v: "mutex_inv k s g v" "gdepth g t = d"
  have count: "MUTEX_COUNTER_BITS_IS_ZERO v \<longleftrightarrow> d = 1" "d \<le> max_depth k" if "0 < d"
  proof -
    have "g = Some (t, d)" using that v(2) by (cases g) (auto split: if_splits)
    with v show "MUTEX_COUNTER_BITS_IS_ZERO v \<longleftrightarrow> d = 1" "d \<le> max_depth k" by (auto simp: word_count)
  qed
  have loop: "wp (mutex_proto k s live m) m t (d - 1) (Call (L_mutex_unlock m v) Return) (unlocks d) d False"
    if "2 \<le> d" using that count(2) assms(2) by (cases k) (auto simp: mutex_proto_def)
  have release: "wp (mutex_proto k s live m) m t (d - 1) (Membar (Swap
      (enc 0 (kind_bits k) 0 0 0 OR shared_bits s OR MUTEX_STATE_BITS_UNLOCKED) m (\<lambda>mvalue.
        if contended mvalue then Futex_wake m (shared_bits s) 1 (\<lambda>_. Return 0) else Return 0)))
      (unlocks d) d False" if "d = 1"
    using that wp_owned_release [of k s live m t] owned_free_words(2) [of k s]
    by (simp add: or.assoc [symmetric] field_masks del: wp.simps(5))
  consider "d = 0" | "d = 1" | "2 \<le> d" by linarith
  then show "wp (mutex_proto k s live m) m t (d - 1) (let mtype = v AND MUTEX_TYPE_MASK; shared = v AND MUTEX_SHARED_MASK in
        if mtype = MUTEX_TYPE_BITS_NORMAL then bind (normal_unlock m shared) (\<lambda>_. Return 0)
        else Get_tid (\<lambda>tid.
          if tid \<noteq> MUTEX_OWNER_FROM_BITS v then Return EPERM
          else if \<not> MUTEX_COUNTER_BITS_IS_ZERO v then Call (L_mutex_unlock m v) Return
          else Membar (Swap (mtype OR shared OR MUTEX_STATE_BITS_UNLOCKED) m (\<lambda>mvalue.
            if contended mvalue then Futex_wake m shared 1 (\<lambda>_. Return 0) else Return 0))))
      (unlocks d) d False"
    unfolding word_fields [OF v(1)] Let_def if_not_P [OF owned_free_words(3) [OF assms(2)]] wp.simps(10)
      word_owner [OF v(1) assms(2,1)] v(2)
    by cases (use count loop release in \<open>simp_all del: wp.simps(5,12)\<close>)
qed simp

lemma lock_ok:
  assumes "valid_tid t" "m \<noteq> NULL"
  shows "wp (mutex_proto k s live m) m t d (pthread_mutex_lock m) (locks k True d) d False"
proof (cases "k = Normal")
  case True
  show ?thesis unfolding True
    by (rule wp_mono [OF normal_lock_ok [OF assms]]) (simp add: locks_def)
qed (use assms owned_lock_ok in simp)

lemma unlock_ok:
  assumes "valid_tid t" "m \<noteq> NULL" "k = Normal \<longrightarrow> 0 < d"
  shows "wp (mutex_proto k s live m) m t (d - 1) (pthread_mutex_unlock m)
    (unlocks d) d False"
  using assms normal_unlock_ok owned_unlock_ok by (cases "k = Normal") simp_all

text \<open>Waiting on a condition variable gives up one hold and takes it back.\<close>

lemma relative_wait_ok:
  assumes "valid_tid t" "m \<noteq> NULL" "cond \<noteq> m" "0 < d" "d \<le> max_depth k"
  shows "wp (mutex_proto k s live m) m t (d - 1) (cond_timedwait_relative cond m rel)
    (\<lambda>d' b r. \<not> b \<and> d' = d) d False"
proof -
  have relock: "wp (mutex_proto k s live m) m t (d - 1)
      (bind (pthread_mutex_lock m) (\<lambda>_. if status = - ETIMEDOUT then Return ETIMEDOUT else Return 0))
      (\<lambda>d' b r. \<not> b \<and> d' = d) (d - 1) False" for status :: cint
    using assms(4,5) by (intro wp_bind [OF lock_ok [OF assms(1,2)]]) (auto simp: locks_def)
  have "wp (mutex_proto k s live m) m t (d - 1) (bind (pthread_mutex_unlock m) (\<lambda>_. Load cond (\<lambda>value.
      Futex_wait cond (COND_IS_SHARED value) v rel (\<lambda>status. bind (pthread_mutex_lock m)
        (\<lambda>_. if status = - ETIMEDOUT then Return ETIMEDOUT else Return 0)))))
      (\<lambda>d' b r. \<not> b \<and> d' = d) d False" for v
    by (rule wp_bind [OF unlock_ok]) (use assms relock in \<open>auto split del: if_split\<close>)
  with assms(3) show ?thesis by (simp add: cond_timedwait_relative_def split del: if_split)
qed

lemma wait_ok:
  assumes "valid_tid t" "m \<noteq> NULL" "cond \<noteq> m" "0 < d" "d \<le> max_depth k"
  shows "wp (mutex_proto k s live m) m t (d - 1) (pthread_cond_wait cond m) (\<lambda>d' b r. \<not> b \<and> d' = d) d False"
    "wp (mutex_proto k s live m) m t (d - 1) (cond_timedwait_clock cond m abstime clock)
       (\<lambda>d' b r. \<not> b \<and> d' = d) d False"
  using relative_wait_ok [OF assms]
  by (auto simp: pthread_cond_wait_def pthread_cond_timedwait_def cond_timedwait_clock_def
      timespec_to_absolute_def split: prod.splits option.splits)

lemma pulse_ok:
  assumes "cond \<noteq> m"
  shows "wp (mutex_proto k s live m) m t d (pthread_cond_pulse cond n) (\<lambda>d' b r. \<not> b \<and> d' = d) d False"
  using assms by (auto simp: pthread_cond_pulse_def mutex_proto_def Let_def)

lemmas cond_call_defs = pthread_cond_timedwait_def pthread_cond_timedwait_monotonic_def
  pthread_cond_timedwait_relative_np_def pthread_cond_timeout_np_def pthread_cond_signal_def pthread_cond_broadcast_def

text \<open>Bundles that unfold the loops and the entry points.\<close>

lemmas loop_defs = normal_lock_loop_def recursive_increment_loop_def mutex_lock_loop_def mutex_lock_wait_def
  mutex_unlock_loop_def timeout_normal_loop_def timeout_loop_def timeout_wait_def cond_pulse_loop_def
  timespec_to_absolute_def

lemmas call_defs = pthread_mutex_lock_def pthread_mutex_lock_impl_def pthread_mutex_trylock_def
  pthread_mutex_trylock_impl_def pthread_mutex_unlock_def pthread_mutex_unlock_impl_def
  pthread_mutex_lock_timeout_np_def pthread_mutex_lock_timeout_np_impl_def timespec_to_relative_msec_def
  timespec_to_absolute_def normal_lock_def normal_unlock_def recursive_increment_def

lemma cond_calls_ok:
  assumes "valid_tid t" "client_ok k live m c d" "d \<le> max_depth k" "\<not> locking c" "c \<noteq> Unlock"
  shows "wp (mutex_proto k s live m) m t (kept c d) (call_prog m c) (returns c d) d False"
  using assms wait_ok relative_wait_ok pulse_ok by (cases c) (simp_all add: cond_call_defs Let_def)

lemma null_calls_ok:
  assumes "locking c \<or> c = Unlock"
  shows "wp (mutex_proto k s live NULL) NULL t (kept c d) (call_prog NULL c) (returns c d) d False"
  using assms
  by (cases c) (simp_all add: pthread_mutex_lock_def pthread_mutex_lock_impl_def pthread_mutex_trylock_def
    pthread_mutex_trylock_impl_def pthread_mutex_unlock_def pthread_mutex_unlock_impl_def
    pthread_mutex_lock_timeout_np_def pthread_mutex_lock_timeout_np_impl_def timespec_to_relative_msec_def)

lemma wp_locks_returns:
  "wp P m t d p (locks k must d) d False \<Longrightarrow> locking c \<Longrightarrow> wp P m t d p (returns c d) d False"
  by (erule wp_mono) (cases c; auto simp: locks_def)

lemma mutex_calls_ok:
  assumes "valid_tid t" "client_ok k live m c d" "m \<noteq> NULL" "locking c \<or> c = Unlock"
  shows "wp (mutex_proto k s live m) m t (kept c d) (call_prog m c) (returns c d) d False"
proof (cases c)
  case Lock
  with wp_locks_returns [OF lock_ok [OF assms(1,3)], where c = Lock] show ?thesis by simp
next
  case Trylock
  with assms wp_locks_returns [OF owned_trylock_ok [OF assms(1) _ assms(3)], where c = Trylock] normal_trylock_ok
  show ?thesis by (cases "k = Normal") simp_all
next
  case (Timedlock ms)
  with assms wp_locks_returns [OF owned_timedlock_ok [OF assms(1) _ assms(3)], where c = "Timedlock ms"]
    normal_timedlock_ok
  show ?thesis by (cases "k = Normal") simp_all
next
  case Unlock
  with assms(2) have "k = Normal \<longrightarrow> 0 < d" by simp
  from wp_mono [OF unlock_ok [OF assms(1,3) this], where Q' = "returns Unlock d"] Unlock show ?thesis by simp
qed (use assms in auto)

lemma calls_ok:
  assumes "valid_tid t" "client_ok k live m c d" "mutex_inv k s g v" "gdepth g t = d"
  shows "wp (mutex_proto k s live m) m t (kept c d) (call_prog m c) (returns c d) d False"
proof -
  have "d \<le> max_depth k" using assms(3,4) by (cases g) (auto split: if_splits)
  then show ?thesis
    using assms cond_calls_ok mutex_calls_ok null_calls_ok by (cases "locking c \<or> c = Unlock"; cases "m = NULL") auto
qed

section \<open>The code fulfils the protocol\<close>

text \<open>
  Once without tracking duties, for every kernel and every call; and once with it, for a kernel that
  keeps the futex contract, with timed locking on normal mutexes only.
\<close>

lemma loops_ok':
  assumes "p_pre (mutex_proto k s live m) t lo d b l" "valid_tid t" "lo \<le> d"
  shows "wp (mutex_proto k s live m) m t lo (loop_body l)
      (\<lambda>d' b' r. \<not> b' \<and> p_post (mutex_proto k s live m) t d l d' r) d b"
  using loops_ok [of k s live m t lo d b l] assms by (simp add: mutex_proto_def)

lemma ghost_locked_ok:
  assumes "mutex_inv k s g v"
  shows "case g of None \<Rightarrow> \<not> locked v | Some (t, d) \<Rightarrow> locked v \<and> 0 < d"
  using assms
proof (cases rule: view_cases [where t = 0])
  case (mine c st)
  with held_fields [of 0 c k st s] show ?thesis by (auto simp: enc_simps)
next
  case (other u c st)
  with held_fields [of u c k st s] show ?thesis by (auto simp: enc_simps)
qed (simp add: enc_simps free_fields)

interpretation safe: verified_calls "mutex_proto k s False m" m F "client_ok k False m" for k s m F
  by unfold_locales (auto intro: loops_ok' calls_ok dest: ghost_locked_ok)

sublocale futex_kernel \<subseteq> live: verified_calls "mutex_proto k s True m" m F "client_ok k True m" for k s m
  by unfold_locales (auto intro: loops_ok' calls_ok dest: ghost_locked_ok simp: sleeps_only_on_match wakes_someone)

section \<open>Mutual exclusion and wake-ups\<close>

definition fresh_mutex :: "addr \<Rightarrow> mkind \<Rightarrow> bool \<Rightarrow> sys" where
  "fresh_mutex m k s = fresh_sys m (encode \<lparr>a_kind = k, a_shared = s, a_hold = Free\<rparr>)"

lemma fresh_mutex_free: "fresh_mutex m k s = fresh_sys m (free_bits k s)"
  by (simp add: fresh_mutex_def encode_def)

text \<open>C1: in every state that any number of threads reach by calling lock, trylock, timed lock and
  unlock on a fresh mutex of any kind, and by waiting on and signalling condition variables with it, for
  every kernel, at most one thread holds the mutex.\<close>

theorem mutual_exclusion:
  assumes "reachable F m (client_ok k False m) (fresh_mutex m k s) \<sigma>"
    and "in_critical (thr \<sigma> t)" "in_critical (thr \<sigma> u)"
  shows "t = u"
  using safe.exclusion [OF assms(1) [unfolded fresh_mutex_free] _ assms(2,3), of s] by simp

text \<open>The words of the protocol are the encodings of legal abstract mutexes.\<close>

lemma mutex_inv_encode:
  assumes "mutex_inv k s g v"
  obtains "g = None" "v = encode \<lparr>a_kind = k, a_shared = s, a_hold = Free\<rparr>"
    | t c w where "g = Some (t, Suc c)" "hold_ok k (Held (owner_bits k t) c w)"
      "v = encode \<lparr>a_kind = k, a_shared = s, a_hold = Held (owner_bits k t) c w\<rparr>"
proof (cases g)
  case None
  with assms that(1) show thesis by (simp add: encode_def)
next
  case (Some x)
  from assms obtain t c st where t: "g = Some (t, Suc c)" "valid_tid t" "c < max_depth k" "st = Suc 0 \<or> st = 2"
    "v = enc (owner_bits k t) (kind_bits k) (shbit s) c st"
    by (cases rule: view_cases [where t = 0]) (use Some in auto)
  then have "hold_ok k (Held (owner_bits k t) c (st = 2))" by (cases k) (auto simp: valid_tid_def)
  with t that(2) [of t c "st = 2"] show thesis by (auto simp: encode_def)
qed

text \<open>C7: whenever no thread is inside a call, the word in memory encodes exactly who holds the mutex
  and how often, as the threads themselves count it.\<close>

theorem quiet_mutex_word:
  assumes "reachable F m (client_ok k False m) (fresh_mutex m k s) \<sigma>" "\<forall>t. act (thr \<sigma> t) = Idle"
  shows "(\<forall>t. depth (thr \<sigma> t) = 0) \<and> smem \<sigma> m = encode \<lparr>a_kind = k, a_shared = s, a_hold = Free\<rparr> \<or>
    (\<exists>t c w. depth (thr \<sigma> t) = Suc c \<and> (\<forall>u. u \<noteq> t \<longrightarrow> depth (thr \<sigma> u) = 0) \<and>
      hold_ok k (Held (owner_bits k t) c w) \<and>
      smem \<sigma> m = encode \<lparr>a_kind = k, a_shared = s, a_hold = Held (owner_bits k t) c w\<rparr>)"
proof -
  obtain g where g: "mutex_inv k s g (smem \<sigma> m)" "\<And>t. depth (thr \<sigma> t) = gdepth g t"
    using safe.quiet_word [OF assms(1) [unfolded fresh_mutex_free] _ assms(2), of s] by auto
  from g(1) show ?thesis by (cases rule: mutex_inv_encode) (use g(2) in fastforce)+
qed

text \<open>C8: the mutex word is well typed at every moment. In the middle of calls too it encodes a legal
  abstract mutex of the kind and sharing it was created with: no field ever runs into its neighbour.\<close>

theorem mutex_word_well_typed:
  assumes "reachable F m (client_ok k False m) (fresh_mutex m k s) \<sigma>"
  shows "\<exists>h. amutex_ok \<lparr>a_kind = k, a_shared = s, a_hold = h\<rparr> \<and>
    smem \<sigma> m = encode \<lparr>a_kind = k, a_shared = s, a_hold = h\<rparr>"
proof -
  obtain g where "mutex_inv k s g (smem \<sigma> m)"
    using safe.reachable_inv [OF assms [unfolded fresh_mutex_free], of s] by (auto simp: sys_inv_def)
  then show ?thesis
    by (cases rule: mutex_inv_encode) (force simp: amutex_ok_def intro: exI [of _ Free], auto simp: amutex_ok_def)
qed

text \<open>C6: the waits and the wake-ups of a mutex agree on the futex queue. The kernel keeps the sleepers of
  an address in a shared and a private queue, and a wake-up reaches only the one its flag names. Every thread asleep
  on the mutex is in the queue of the sharing the mutex was created with, and every thread about to wake a sleeper of
  the mutex wakes in that queue, for at least one sleeper.\<close>

theorem one_futex_queue:
  assumes "reachable F m (client_ok k False m) (fresh_mutex m k s) \<sigma>"
  shows "(\<forall>t. sleeps_on m (act (thr \<sigma> t)) \<longrightarrow> queued (m, \<not> s) (act (thr \<sigma> t))) \<and>
    (\<forall>t c sh n p. act (thr \<sigma> t) = In c (Futex_wake m sh n p) \<longrightarrow> wake_key m sh = (m, \<not> s) \<and> 0 < sint n)"
proof -
  obtain g B where inv: "sys_inv (mutex_proto k s False m) m g B \<sigma>"
    using safe.reachable_inv [OF assms [unfolded fresh_mutex_free], of s] by auto
  have "wake_key m sh = (m, \<not> s) \<and> 0 < sint n" if "act (thr \<sigma> t) = In c (Futex_wake m sh n p)" for t c sh n p
    using safe.inv_In(2) [OF inv that] by auto
  with safe.sleeper_queue [OF inv] show ?thesis by simp
qed

context futex_kernel
begin

lemma mutex_sleeper:
  assumes "reachable F m (client_ok k True m) (fresh_mutex m k s) \<sigma>" "sleeps_on m (act (thr \<sigma> t))"
    and "\<And>u c p. act (thr \<sigma> u) \<noteq> In c p"
  shows "contended (smem \<sigma> m) \<and> (\<exists>u. 0 < depth (thr \<sigma> u))"
proof -
  obtain g where g: "mutex_inv k s g (smem \<sigma> m)" "contended (smem \<sigma> m)" "\<And>u. gdepth g u \<le> depth (thr \<sigma> u)"
    using live.sleeper [OF assms(1) [unfolded fresh_mutex_free] _ _ assms(2,3), of s] by auto
  then obtain u d where "g = Some (u, d)" by (cases g) (auto simp: enc_simps free_fields)
  with g(1,2) g(3) [of u] show ?thesis by (auto intro!: exI [of _ u])
qed

end

text \<open>C2: no wake-up is lost. With a kernel that puts a thread to sleep only while the word has the
  expected value and wakes somebody when asked to, a thread asleep on the mutex is never forgotten:
  either some thread is still on its way through a call, or the mutex is marked contended (so that its
  unlock will wake a sleeper) and some thread really holds it.\<close>

theorem no_lost_wakeup:
  assumes "futex_sleeps_only_on_match F" "futex_wakes_someone F"
    and "reachable F m (client_ok k True m) (fresh_mutex m k s) \<sigma>"
    and "sleeps_on m (act (thr \<sigma> t))"
  shows "(\<exists>u c p. act (thr \<sigma> u) = In c p) \<or>
    MUTEX_STATE_BITS_IS_LOCKED_CONTENDED (smem \<sigma> m) \<and> (\<exists>u. 0 < depth (thr \<sigma> u))"
  using futex_kernel.mutex_sleeper [OF _ assms(3,4)] assms(1,2) by (auto simp: futex_kernel_def)

end
