(* ===== verification/Schedules.thy ===== *)
theory Schedules
  imports Mutex_Conc
begin

text \<open>
  Concrete runs of several threads. \<open>play\<close> executes a schedule, a list of the steps each thread takes,
  on the kernel \<open>linux_futex\<close>; every state it computes is reachable. The runs below witness the
  theorems of theory \<open>Mutex_Conc\<close> and show a lost wake-up of the timed lock.
\<close>

section \<open>Schedules\<close>

datatype event =
    Begin cint call      \<comment> \<open>the thread makes a call\<close>
  | Go cint              \<comment> \<open>one access without the kernel\<close>
  | Tick cint timespec   \<comment> \<open>the clock tells this time\<close>
  | Wait cint            \<comment> \<open>\<open>futex_wait\<close>: sleep on a match, return otherwise\<close>
  | Wake cint cint       \<comment> \<open>\<open>futex_wake\<close> of one, the second thread\<close>
  | Wake_all cint        \<comment> \<open>\<open>futex_wake\<close> of all sleepers\<close>
  | End cint             \<comment> \<open>the call returns\<close>

text \<open>A wake-up by \<open>t\<close> inside \<open>c\<close> of one sleeper \<open>u\<close>; \<open>k\<close> is the rest of the call.\<close>

definition wake_one :: "sys \<Rightarrow> cint \<Rightarrow> call \<Rightarrow> (cint \<Rightarrow> prog) \<Rightarrow> cint \<Rightarrow> sys" where
  "wake_one s t c k u = set_act (set_act s u (wake_up (act (thr s u)))) t (In c (k 1))"

definition wake_sleepers :: "sys \<Rightarrow> futex_key \<Rightarrow> sys" where
  "wake_sleepers s key =
    s\<lparr>thr := (\<lambda>u. if queued key (act (thr s u)) then (thr s u)\<lparr>act := wake_up (act (thr s u))\<rparr> else thr s u)\<rparr>"

fun idle :: "activity \<Rightarrow> bool" where
  "idle Idle = True"
| "idle x = False"

lemma idle_iff: "idle x \<longleftrightarrow> x = Idle"
  by (cases x) auto

fun play1 :: "addr \<Rightarrow> (call \<Rightarrow> nat \<Rightarrow> bool) \<Rightarrow> event \<Rightarrow> sys \<Rightarrow> sys option" where
  "play1 m ok (Begin t c) s =
    (if valid_tid t \<and> idle (act (thr s t)) \<and> ok c (depth (thr s t))
     then Some (set_act s t (In c (call_prog m c))) else None)"
| "play1 m ok (Go t) s =
    (case act (thr s t) of
       In c p \<Rightarrow> (case access t (smem s) p of
           Some (M, p') \<Rightarrow> Some ((set_act s t (In c p'))\<lparr>smem := M\<rparr>) | None \<Rightarrow> None)
     | _ \<Rightarrow> None)"
| "play1 m ok (Tick t ts) s =
    (case act (thr s t) of In c (Clock_gettime cl k) \<Rightarrow> Some (set_act s t (In c (k ts))) | _ \<Rightarrow> None)"
| "play1 m ok (Wait t) s =
    (case act (thr s t) of
       In c (Futex_wait a sh v ts k) \<Rightarrow>
         if smem s a = v then Some (set_act s t (Asleep c (wait_key a sh) k)) else Some (set_act s t (In c (k (- EAGAIN))))
     | _ \<Rightarrow> None)"
| "play1 m ok (Wake t u) s =
    (case act (thr s t) of
       In c (Futex_wake a sh n k) \<Rightarrow>
         if n = 1 \<and> queued (wake_key a sh) (act (thr s u)) then Some (wake_one s t c k u) else None
     | _ \<Rightarrow> None)"
| "play1 m ok (Wake_all t) s =
    (case act (thr s t) of
       In c (Futex_wake a sh n k) \<Rightarrow> if n = 1 then None else Some (set_act (wake_sleepers s (wake_key a sh)) t (In c (k 1)))
     | _ \<Rightarrow> None)"
| "play1 m ok (End t) s =
    (case act (thr s t) of
       In c (Return r) \<Rightarrow>
         Some (s\<lparr>thr := (thr s)(t := \<lparr>depth = new_depth c r (depth (thr s t)), act = Idle\<rparr>)\<rparr>)
     | _ \<Rightarrow> None)"

fun play :: "addr \<Rightarrow> (call \<Rightarrow> nat \<Rightarrow> bool) \<Rightarrow> event list \<Rightarrow> sys \<Rightarrow> sys option" where
  "play m ok [] s = Some s"
| "play m ok (e # es) s = (case play1 m ok e s of Some s' \<Rightarrow> play m ok es s' | None \<Rightarrow> None)"

fun goes :: "event \<Rightarrow> bool" where
  "goes (Go t) = True"
| "goes e = False"

fun mover :: "event \<Rightarrow> cint" where
  "mover (Begin t c) = t"
| "mover (Go t) = t"
| "mover (Tick t ts) = t"
| "mover (Wait t) = t"
| "mover (Wake t u) = t"
| "mover (Wake_all t) = t"
| "mover (End t) = t"

lemma play1_quiet: "play1 m ok e s = Some s' \<Longrightarrow> \<not> goes e \<Longrightarrow> quiet_step linux_futex m ok (mover e) s s'"
proof (induction m ok e s rule: play1.induct)
  case (5 m ok t u s)
  then obtain c a sh k where w: "act (thr s t) = In c (Futex_wake a sh 1 k)" "queued (wake_key a sh) (act (thr s u))"
    "s' = wake_one s t c k u"
    by (auto split: activity.splits prog.splits if_splits)
  have "fwake linux_futex {u. queued (wake_key a sh) (act (thr s u))} 1 {u}"
    using w(2) by (auto simp: linux_futex_def)
  note quiet_step.wake [where r = 1 and m = m and ok = ok, OF w(1) this refl]
  moreover have "s\<lparr>thr := (\<lambda>x. if x \<in> {u} then (thr s x)\<lparr>act := wake_up (act (thr s x))\<rparr> else thr s x)\<rparr> =
      set_act s u (wake_up (act (thr s u)))"
    by (auto simp: set_act_def intro!: arg_cong [where f = "\<lambda>f. s\<lparr>thr := f\<rparr>"] ext)
  ultimately show ?case using w by (simp only: wake_one_def mover.simps)
next
  case (6 m ok t s)
  then obtain c a sh n k where w: "act (thr s t) = In c (Futex_wake a sh n k)" "n \<noteq> 1"
    "s' = set_act (wake_sleepers s (wake_key a sh)) t (In c (k 1))"
    by (auto split: activity.splits prog.splits if_splits)
  then have "fwake linux_futex {u. queued (wake_key a sh) (act (thr s u))} n {u. queued (wake_key a sh) (act (thr s u))}"
    by (simp add: linux_futex_def)
  from quiet_step.wake [where r = 1 and m = m and ok = ok, OF w(1) this refl] w(3) show ?case
    by (simp add: wake_sleepers_def)
qed (auto split: if_splits activity.splits prog.splits option.splits intro: quiet_step.intros
     simp: linux_futex_def idle_iff simp del: key_simps)

lemma play1_thread:
  assumes "play1 m ok e s = Some s'"
  shows "thread_step linux_futex m ok (mover e) s s'"
proof (cases "goes e")
  case True
  then obtain t where "e = Go t" by (cases e) auto
  with assms show ?thesis by (auto split: activity.splits option.splits intro: thread_step.access)
qed (use assms play1_quiet in \<open>blast intro: thread_step.quiet\<close>)

lemmas play1_sound = sys_step.some_thread [OF play1_thread]

lemma play_sound: "play m ok es s = Some s' \<Longrightarrow> reachable linux_futex m ok s0 s \<Longrightarrow> reachable linux_futex m ok s0 s'"
  by (induction es arbitrary: s) (auto split: option.splits dest!: play1_sound, blast intro: reachable.step)

lemma play_reachable:
  assumes "\<exists>s. play m ok es s0 = Some s \<and> Q s"
  obtains s where "reachable linux_futex m ok s0 s" "Q s"
  using assms play_sound [OF _ reachable.start] by metis

text \<open>What evaluates the calls of a schedule.\<close>

lemmas run_simps = fresh_mutex_def fresh_sys_def encode_def shbit_def enc_def valid_tid_def set_act_def
  wake_one_def pthread_mutex_lock_def pthread_mutex_lock_impl_def pthread_mutex_unlock_def
  pthread_mutex_unlock_impl_def pthread_mutex_lock_timeout_np_def pthread_mutex_lock_timeout_np_impl_def
  recursive_increment_def recursive_increment_loop_def
  timespec_to_relative_msec_def timespec_to_absolute_def timespec_left_def timespec_add_msec_def
  timeout_loop_def timeout_wait_def mutex_lock_loop_def mutex_lock_wait_def field_masks owner_from_bits
  MUTEX_OWNER_TO_BITS_def MUTEX_STATE_BITS_IS_LOCKED_UNCONTENDED_def
  MUTEX_STATE_BITS_IS_LOCKED_CONTENDED_def MUTEX_STATE_BITS_FLIP_CONTENTION_def MUTEX_COUNTER_BITS_IS_ZERO_def
  MUTEX_COUNTER_BITS_WILL_OVERFLOW_def FIELD_TO_BITS_def shl_def MUTEX_OWNER_SHIFT_def MUTEX_OWNER_LEN_def Let_def

lemmas run_congs = if_weak_cong option.case_cong_weak

section \<open>Runs\<close>

definition lock_now :: "cint \<Rightarrow> event list" where
  "lock_now t = [Begin t Lock, Go t, Go t, Go t, Go t, End t]"

definition unlock_now :: "cint \<Rightarrow> event list" where
  "unlock_now t = [Begin t Unlock, Go t, Go t, Go t, Go t, End t]"

text \<open>Thread 1 takes a recursive mutex, thread 2 finds it taken and goes to sleep.\<close>

definition contention_run :: "event list" where
  "contention_run = lock_now 1 @ [Begin 2 Lock, Go 2, Go 2, Go 2, Go 2, Wait 2]"

lemma contention_run:
  "\<exists>\<sigma>. play 4096 (client_ok Recursive live 4096) contention_run (fresh_mutex 4096 Recursive False) = Some \<sigma> \<and>
    in_critical (thr \<sigma> 1) \<and> sleeps_on 4096 (act (thr \<sigma> 2)) \<and> {u. act (thr \<sigma> u) \<noteq> Idle} = {2}"
  by (simp add: contention_run_def lock_now_def run_simps in_critical_def cong: run_congs) auto

text \<open>Thread 1 takes a recursive mutex twice.\<close>

lemma twice_run:
  "\<exists>\<sigma>. play 4096 (client_ok Recursive live 4096) (lock_now 1 @ lock_now 1)
      (fresh_mutex 4096 Recursive False) = Some \<sigma> \<and> depth (thr \<sigma> 1) = 2 \<and> (\<forall>u. act (thr \<sigma> u) = Idle)"
  by (simp add: lock_now_def run_simps cong: run_congs)

lemma mutual_exclusion_witness:
  "\<exists>\<sigma>. reachable linux_futex 4096 (client_ok Recursive False 4096) (fresh_mutex 4096 Recursive False) \<sigma> \<and>
    {u. in_critical (thr \<sigma> u)} = {1}"
proof -
  obtain \<sigma> where "reachable linux_futex 4096 (client_ok Recursive False 4096) (fresh_mutex 4096 Recursive False) \<sigma>"
    "in_critical (thr \<sigma> 1)"
    using contention_run by (rule play_reachable) blast
  with mutual_exclusion [of linux_futex 4096 Recursive False \<sigma> 1] show ?thesis by blast
qed

lemma quiet_mutex_word_witness:
  "\<exists>\<sigma> w. reachable linux_futex 4096 (client_ok Recursive False 4096) (fresh_mutex 4096 Recursive False) \<sigma> \<and>
    depth (thr \<sigma> 1) = 2 \<and> smem \<sigma> 4096 = encode \<lparr>a_kind = Recursive, a_shared = False, a_hold = Held 1 1 w\<rparr>"
proof -
  obtain \<sigma> where s: "reachable linux_futex 4096 (client_ok Recursive False 4096) (fresh_mutex 4096 Recursive False) \<sigma>"
    "depth (thr \<sigma> 1) = 2" "\<forall>u. act (thr \<sigma> u) = Idle"
    using twice_run by (rule play_reachable) blast
  from quiet_mutex_word [OF s(1,3)] s(2) obtain t c w where t: "depth (thr \<sigma> t) = Suc c"
    "\<forall>u. u \<noteq> t \<longrightarrow> depth (thr \<sigma> u) = 0"
    "smem \<sigma> 4096 = encode \<lparr>a_kind = Recursive, a_shared = False, a_hold = Held (owner_bits Recursive t) c w\<rparr>"
    by fastforce
  from t(2) s(2) have t1: "t = 1" by (metis zero_neq_numeral)
  with s(2) t(1) have "c = 1" by simp
  with t1 t(3) s(1,2) show ?thesis by (intro exI [of _ \<sigma>] exI [of _ w]) simp
qed

lemma mutex_word_well_typed_witness:
  "\<exists>\<sigma> h. reachable linux_futex 4096 (client_ok Recursive False 4096) (fresh_mutex 4096 Recursive False) \<sigma> \<and>
    sleeps_on 4096 (act (thr \<sigma> 2)) \<and> amutex_ok \<lparr>a_kind = Recursive, a_shared = False, a_hold = h\<rparr> \<and>
    smem \<sigma> 4096 = encode \<lparr>a_kind = Recursive, a_shared = False, a_hold = h\<rparr>"
proof -
  obtain \<sigma> where "reachable linux_futex 4096 (client_ok Recursive False 4096) (fresh_mutex 4096 Recursive False) \<sigma>"
    "sleeps_on 4096 (act (thr \<sigma> 2))"
    using contention_run by (rule play_reachable) blast
  with mutex_word_well_typed [of linux_futex 4096 Recursive False \<sigma>] show ?thesis by blast
qed

lemma one_futex_queue_witness:
  "\<exists>\<sigma>. reachable linux_futex 4096 (client_ok Recursive False 4096) (fresh_mutex 4096 Recursive False) \<sigma> \<and>
    queued (4096, True) (act (thr \<sigma> 2))"
proof -
  obtain \<sigma> where "reachable linux_futex 4096 (client_ok Recursive False 4096) (fresh_mutex 4096 Recursive False) \<sigma>"
    "sleeps_on 4096 (act (thr \<sigma> 2))"
    using contention_run by (rule play_reachable) blast
  with one_futex_queue [of linux_futex 4096 Recursive False \<sigma>] show ?thesis by auto
qed

lemma no_lost_wakeup_witness:
  "\<exists>\<sigma>. reachable linux_futex 4096 (client_ok Recursive True 4096) (fresh_mutex 4096 Recursive False) \<sigma> \<and>
    sleeps_on 4096 (act (thr \<sigma> 2)) \<and> MUTEX_STATE_BITS_IS_LOCKED_CONTENDED (smem \<sigma> 4096) \<and> (\<exists>u. 0 < depth (thr \<sigma> u))"
proof -
  obtain \<sigma> where s: "reachable linux_futex 4096 (client_ok Recursive True 4096) (fresh_mutex 4096 Recursive False) \<sigma>"
    "sleeps_on 4096 (act (thr \<sigma> 2))" "{u. act (thr \<sigma> u) \<noteq> Idle} = {2}"
    using contention_run by (rule play_reachable) blast
  have "act (thr \<sigma> u) \<noteq> In c p" for u c p
  proof
    assume u: "act (thr \<sigma> u) = In c p"
    then have "u \<in> {u. act (thr \<sigma> u) \<noteq> Idle}" by simp
    then have "u = 2" unfolding s(3) by simp
    with u s(2) show False by simp
  qed
  with no_lost_wakeup [OF linux.sleeps_only_on_match linux.wakes_someone s(1,2)] s show ?thesis by blast
qed

section \<open>A lost wake-up\<close>

text \<open>
  Thread 1 holds a recursive or error-checking mutex, thread 2 waits for it in a timed lock, thread 3 in a plain one.
  The unlock of thread 1 wakes thread 2, which finds the mutex free; before its compare-and-swap,
  thread 4 takes the mutex by the uncontended path. Thread 2 fails to take it, finds its time used up
  and returns \<open>EBUSY\<close>. Thread 4 unlocks an uncontended mutex and wakes nobody.
\<close>

definition two_waiters_run :: "event list" where
  "two_waiters_run = lock_now 1 @
    [Begin 2 (Timedlock 10), Tick 2 \<lparr>tv_sec = 0, tv_nsec = 0\<rparr>, Go 2, Go 2, Go 2, Go 2,
     Tick 2 \<lparr>tv_sec = 0, tv_nsec = 0\<rparr>, Wait 2, Begin 3 Lock, Go 3, Go 3, Go 3, Wait 3,
     Begin 1 Unlock, Go 1, Go 1, Go 1, Go 1]"

definition give_up_run :: "event list" where
  "give_up_run = [End 1, Go 2, Go 2] @ lock_now 4 @ [Go 2, Tick 2 \<lparr>tv_sec = 1, tv_nsec = 0\<rparr>]"

definition lost_wakeup_run :: "event list" where
  "lost_wakeup_run = End 2 # unlock_now 4"

text \<open>The state before the wake-up, and the state in the end.\<close>

definition both_wait :: "addr \<Rightarrow> sys \<Rightarrow> bool" where
  "both_wait m \<sigma> \<longleftrightarrow> (\<exists>k2 k3. act (thr \<sigma> 2) = Asleep (Timedlock 10) (m, True) k2 \<and> act (thr \<sigma> 3) = Asleep Lock (m, True) k3)"

definition left_behind :: "mkind \<Rightarrow> addr \<Rightarrow> sys \<Rightarrow> bool" where
  "left_behind k m \<sigma> \<longleftrightarrow> (\<forall>u. u \<noteq> 3 \<longrightarrow> thr \<sigma> u = \<lparr>depth = 0, act = Idle\<rparr>) \<and>
    (\<exists>k3. thr \<sigma> 3 = \<lparr>depth = 0, act = Asleep Lock (m, True) k3\<rparr>) \<and>
    smem \<sigma> m = encode \<lparr>a_kind = k, a_shared = False, a_hold = Free\<rparr>"

lemma lost_wakeup_run:
  assumes "m \<noteq> NULL" "k \<noteq> Normal"
  shows "\<exists>\<sigma>1 \<sigma>2 \<sigma>3 \<sigma>4. play m (client_ok k False m) two_waiters_run (fresh_mutex m k False) = Some \<sigma>1 \<and> both_wait m \<sigma>1 \<and>
    play1 m (client_ok k False m) (Wake 1 2) \<sigma>1 = Some \<sigma>2 \<and>
    play m (client_ok k False m) give_up_run \<sigma>2 = Some \<sigma>3 \<and> act (thr \<sigma>3 2) = In (Timedlock 10) (Return EBUSY) \<and>
    play m (client_ok k False m) lost_wakeup_run \<sigma>3 = Some \<sigma>4 \<and> left_behind k m \<sigma>4 \<and>
    thr \<sigma>4 3 = thr \<sigma>1 3"
  using assms by (cases k) (simp_all add: two_waiters_run_def give_up_run_def lost_wakeup_run_def lock_now_def unlock_now_def
    both_wait_def left_behind_def run_simps cong: run_congs)

text \<open>From the last state any other thread can take the mutex and release it again, and nothing has changed.\<close>

lemma others_go_round:
  assumes "m \<noteq> NULL" "k \<noteq> Normal" "left_behind k m \<sigma>" "valid_tid u" "u \<noteq> 3"
  shows "\<exists>\<sigma>'. play m (client_ok k False m) (lock_now u) \<sigma> = Some \<sigma>' \<and> in_critical (thr \<sigma>' u) \<and> thr \<sigma>' 3 = thr \<sigma> 3 \<and>
    play m (client_ok k False m) (unlock_now u) \<sigma>' = Some \<sigma>"
proof -
  have *: "fields_ok 0 (kind_bits k) 0 0 0" "kind_bits k \<noteq> 0" "u \<noteq> 0"
    using assms(2,4) by (cases k; auto simp: fields_ok_def valid_tid_def)+
  have th: "thr \<sigma> u = \<lparr>depth = 0, act = Idle\<rparr>" "smem \<sigma> m = enc 0 (kind_bits k) 0 0 0"
    using assms(3,5) by (simp_all add: left_behind_def shbit_def)
  then show ?thesis
    using assms(1,2,4,5) * by (simp add: lock_now_def unlock_now_def idle_iff mutex_defs enc_simps enc_inject enc_arith
      fields_ok_def valid_tid_def set_act_def Let_def in_critical_def fun_upd_idem cong: run_congs)
qed

text \<open>C23: with \<open>pthread_mutex_lock_timeout_np\<close> on a recursive or error-checking mutex a wake-up can be lost. A state is
  reachable in which one thread sleeps in the timed lock and another in \<open>pthread_mutex_lock\<close>, and an unlock wakes the first;
  the timed lock returns \<open>EBUSY\<close>; and in the end the mutex is free, nobody holds it, every other thread is outside the
  library, and the thread in \<open>pthread_mutex_lock\<close> has slept all the time. The other threads may then lock and unlock the
  mutex one after the other for ever: each round comes back to this very state, with that thread asleep.\<close>

theorem timed_lock_loses_wakeup:
  assumes "m \<noteq> NULL" "k \<noteq> Normal"
  shows "\<exists>\<sigma>1 \<sigma>2 \<sigma>3 \<sigma>4. reachable linux_futex m (client_ok k False m) (fresh_mutex m k False) \<sigma>1 \<and> both_wait m \<sigma>1 \<and>
    play1 m (client_ok k False m) (Wake 1 2) \<sigma>1 = Some \<sigma>2 \<and>
    reachable linux_futex m (client_ok k False m) \<sigma>2 \<sigma>3 \<and> act (thr \<sigma>3 2) = In (Timedlock 10) (Return EBUSY) \<and>
    reachable linux_futex m (client_ok k False m) \<sigma>3 \<sigma>4 \<and> left_behind k m \<sigma>4 \<and> thr \<sigma>4 3 = thr \<sigma>1 3 \<and>
    (\<forall>u. valid_tid u \<and> u \<noteq> 3 \<longrightarrow>
      (\<exists>\<sigma>5. play m (client_ok k False m) (lock_now u) \<sigma>4 = Some \<sigma>5 \<and> in_critical (thr \<sigma>5 u) \<and> thr \<sigma>5 3 = thr \<sigma>4 3 \<and>
        play m (client_ok k False m) (unlock_now u) \<sigma>5 = Some \<sigma>4))"
  using lost_wakeup_run [OF assms] others_go_round [OF assms] play_sound [OF _ reachable.start] by meson

lemma timed_lock_loses_wakeup_witness:
  "\<exists>\<sigma> \<sigma>'. left_behind Recursive 4096 \<sigma> \<and>
    play 4096 (client_ok Recursive False 4096) (lock_now 5) \<sigma> = Some \<sigma>' \<and> in_critical (thr \<sigma>' 5) \<and>
    thr \<sigma>' 3 = thr \<sigma> 3 \<and> play 4096 (client_ok Recursive False 4096) (unlock_now 5) \<sigma>' = Some \<sigma>"
proof -
  obtain \<sigma> where \<sigma>: "left_behind Recursive 4096 \<sigma>" "\<forall>u. valid_tid u \<and> u \<noteq> 3 \<longrightarrow>
      (\<exists>\<sigma>'. play 4096 (client_ok Recursive False 4096) (lock_now u) \<sigma> = Some \<sigma>' \<and> in_critical (thr \<sigma>' u) \<and>
        thr \<sigma>' 3 = thr \<sigma> 3 \<and> play 4096 (client_ok Recursive False 4096) (unlock_now u) \<sigma>' = Some \<sigma>)"
    using timed_lock_loses_wakeup [of 4096 Recursive] by auto
  from \<sigma>(2) [rule_format, of 5] have "\<exists>\<sigma>'. play 4096 (client_ok Recursive False 4096) (lock_now 5) \<sigma> = Some \<sigma>' \<and>
      in_critical (thr \<sigma>' 5) \<and> thr \<sigma>' 3 = thr \<sigma> 3 \<and> play 4096 (client_ok Recursive False 4096) (unlock_now 5) \<sigma>' = Some \<sigma>"
    by (simp add: valid_tid_def)
  with \<sigma>(1) show ?thesis by blast
qed

end
