(* ===== verification/Mutex_Calls.thy ===== *)
theory Mutex_Calls
  imports Mutex_Spec
begin

text \<open>
  Sequences of calls by one thread: attributes and initialisation, the depth of recursive locking,
  destruction. \<open>run_calls\<close> makes one call after the other and collects what they return.
\<close>

section \<open>Sequences of calls\<close>

text \<open>16 steps are enough for every call below, none of which goes round a loop more than once.\<close>

fun run_calls :: "env \<Rightarrow> prog list \<Rightarrow> world \<Rightarrow> (cint list \<times> world) option" where
  "run_calls E [] w = Some ([], w)"
| "run_calls E (p # ps) w =
    (case exec E 16 p w of
       Finished r w' \<Rightarrow> (case run_calls E ps w' of Some (rs, w'') \<Rightarrow> Some (r # rs, w'') | None \<Rightarrow> None)
     | _ \<Rightarrow> None)"

lemma run_calls_append:
  "run_calls E (ps @ qs) w =
    (case run_calls E ps w of
       Some (rs, w') \<Rightarrow> (case run_calls E qs w' of Some (rs', w'') \<Rightarrow> Some (rs @ rs', w'') | None \<Rightarrow> None)
     | None \<Rightarrow> None)"
  by (induction ps arbitrary: w) (auto split: outcome.splits option.splits)

section \<open>Attributes and initialisation\<close>

fun kind_code :: "mkind \<Rightarrow> cint" where
  "kind_code Normal = PTHREAD_MUTEX_NORMAL"
| "kind_code Recursive = PTHREAD_MUTEX_RECURSIVE"
| "kind_code Errorcheck = PTHREAD_MUTEX_ERRORCHECK"

definition shared_code :: "bool \<Rightarrow> cint" where
  "shared_code s = (if s then PTHREAD_PROCESS_SHARED else PTHREAD_PROCESS_PRIVATE)"

text \<open>The word of an attribute object that was set up to this kind and sharing.\<close>

definition attr_word :: "mkind \<Rightarrow> bool \<Rightarrow> cint" where
  "attr_word k s = kind_code k OR (if s then MUTEXATTR_SHARED_MASK else 0)"

lemmas attr_defs = pthread_mutexattr_init_def pthread_mutexattr_destroy_def pthread_mutexattr_gettype_def
  pthread_mutexattr_settype_def pthread_mutexattr_setpshared_def pthread_mutexattr_getpshared_def
  pthread_mutex_init_def Let_def

lemma attr_setup:
  assumes "attr \<noteq> NULL"
  shows "run_calls E [pthread_mutexattr_init attr, pthread_mutexattr_settype attr (kind_code k),
      pthread_mutexattr_setpshared attr (shared_code s)] w = Some ([0, 0, 0], set_mutex w attr (attr_word k s))"
  using assms by (cases k; cases s) (simp_all add: attr_defs field_defs shared_code_def attr_word_def)

lemma attr_read:
  assumes "attr \<noteq> NULL" "a \<noteq> NULL" "b \<noteq> NULL" "a \<noteq> attr" "b \<noteq> attr" "mem w attr = attr_word k s"
  shows "run_calls E [pthread_mutexattr_gettype attr a, pthread_mutexattr_getpshared attr b] w =
    Some ([0, 0], set_mutex (set_mutex w a (kind_code k)) b (shared_code s))"
  using assms by (cases k; cases s) (simp_all add: attr_defs field_defs shared_code_def attr_word_def)

lemma mutex_init_word:
  assumes "m \<noteq> NULL" "attr \<noteq> NULL" "mem w attr = attr_word k s"
  shows "run_calls E [pthread_mutex_init m attr] w =
    Some ([0], set_mutex w m (encode \<lparr>a_kind = k, a_shared = s, a_hold = Free\<rparr>))"
  using assms by (cases k; cases s)
    (simp_all add: attr_defs field_defs shared_code_def attr_word_def enc_def shbit_def)

lemma exec_less_fuel:
  "exec E n p w = out \<Longrightarrow> out \<noteq> Out_of_fuel \<Longrightarrow> n \<le> n' \<Longrightarrow> exec E n' p w = out"
  using exec_more_fuel [of E n p w out "n' - n"] by simp

text \<open>What is set in a mutex attribute object is what is read back from it.\<close>

theorem mutexattr_round_trip:
  assumes "attr \<noteq> NULL" "a \<noteq> NULL" "b \<noteq> NULL" "a \<noteq> attr" "b \<noteq> attr"
  shows "run_calls E [pthread_mutexattr_init attr, pthread_mutexattr_settype attr (kind_code k),
      pthread_mutexattr_setpshared attr (shared_code s), pthread_mutexattr_gettype attr a,
      pthread_mutexattr_getpshared attr b] w =
    Some ([0, 0, 0, 0, 0],
      set_mutex (set_mutex (set_mutex w attr (attr_word k s)) a (kind_code k)) b (shared_code s))"
  using run_calls_append [of E "[pthread_mutexattr_init attr, pthread_mutexattr_settype attr (kind_code k),
      pthread_mutexattr_setpshared attr (shared_code s)]"
      "[pthread_mutexattr_gettype attr a, pthread_mutexattr_getpshared attr b]" w]
  unfolding attr_setup [OF assms(1)] by (simp add: attr_read [OF assms] del: run_calls.simps)

lemma mutexattr_round_trip_witness:
  "run_calls (quiet_env 7) [pthread_mutexattr_init 4096, pthread_mutexattr_settype 4096 (kind_code Errorcheck),
      pthread_mutexattr_setpshared 4096 (shared_code True), pthread_mutexattr_gettype 4096 8192,
      pthread_mutexattr_getpshared 4096 8196] (one_word 4096 99) =
    Some ([0, 0, 0, 0, 0], set_mutex (set_mutex (set_mutex (one_word 4096 99) 4096 18) 8192 2) 8196 1)"
  using mutexattr_round_trip [of 4096 8192 8196 "quiet_env 7" Errorcheck True "one_word 4096 99"]
  by (simp add: attr_word_def shared_code_def field_defs)

lemma init_from_attributes:
  assumes "m \<noteq> NULL" "attr \<noteq> NULL"
  shows "run_calls E [pthread_mutexattr_init attr, pthread_mutexattr_settype attr (kind_code k),
      pthread_mutexattr_setpshared attr (shared_code s), pthread_mutex_init m attr] w =
    Some ([0, 0, 0, 0], set_mutex (set_mutex w attr (attr_word k s)) m
      (encode \<lparr>a_kind = k, a_shared = s, a_hold = Free\<rparr>))"
  using run_calls_append [of E "[pthread_mutexattr_init attr, pthread_mutexattr_settype attr (kind_code k),
      pthread_mutexattr_setpshared attr (shared_code s)]" "[pthread_mutex_init m attr]" w]
  unfolding attr_setup [OF assms(2)] by (simp add: mutex_init_word [OF assms] del: run_calls.simps)

text \<open>A mutex initialised from such an attribute object is a free mutex of that kind and sharing.\<close>

theorem mutex_init_fresh:
  assumes "m \<noteq> NULL" "attr \<noteq> NULL"
  shows "run_calls E [pthread_mutexattr_init attr, pthread_mutexattr_settype attr (kind_code k),
      pthread_mutexattr_setpshared attr (shared_code s), pthread_mutex_init m attr] w =
    Some ([0, 0, 0, 0], set_mutex (set_mutex w attr (attr_word k s)) m
      (encode \<lparr>a_kind = k, a_shared = s, a_hold = Free\<rparr>))"
  by (rule init_from_attributes [OF assms])

lemma mutex_init_fresh_witness:
  "run_calls (quiet_env 7) [pthread_mutexattr_init 4096, pthread_mutexattr_settype 4096 (kind_code Recursive),
      pthread_mutexattr_setpshared 4096 (shared_code False), pthread_mutex_init 8192 4096] (one_word 4096 99) =
    Some ([0, 0, 0, 0], set_mutex (set_mutex (one_word 4096 99) 4096 1) 8192 0x4000)"
  using mutex_init_fresh [of 8192 4096 "quiet_env 7" Recursive False "one_word 4096 99"]
  by (simp add: attr_word_def shared_code_def field_defs enc_def shbit_def)

lemma type_range:
  assumes "0 \<le> sint v" "sint v \<le> 2"
  shows "v = (0 :: cint) \<or> v = 1 \<or> v = 2"
proof -
  have "sint v = sint (0 :: cint) \<or> sint v = sint (1 :: cint) \<or> sint v = sint (2 :: cint)"
    using assms by (simp, linarith)
  then show ?thesis by (blast intro: signed_word_eqI)
qed

text \<open>Bad attributes are refused with \<open>EINVAL\<close> and change nothing: a type other than the three, a
  sharing other than the two, and an attribute word whose type field is out of range.\<close>

theorem bad_attributes_refused:
  assumes "attr \<noteq> NULL" "m \<noteq> NULL"
    and "type \<notin> {PTHREAD_MUTEX_NORMAL, PTHREAD_MUTEX_RECURSIVE, PTHREAD_MUTEX_ERRORCHECK}"
    and "pshared \<notin> {PTHREAD_PROCESS_PRIVATE, PTHREAD_PROCESS_SHARED}"
    and "mem w attr AND MUTEXATTR_TYPE_MASK \<notin>
      {PTHREAD_MUTEX_NORMAL, PTHREAD_MUTEX_RECURSIVE, PTHREAD_MUTEX_ERRORCHECK}"
  shows "run_calls E [pthread_mutexattr_settype attr type, pthread_mutexattr_setpshared attr pshared,
      pthread_mutex_init m attr, pthread_mutexattr_gettype attr a] w = Some ([EINVAL, EINVAL, EINVAL, EINVAL], w)"
proof -
  have "\<not> (0 \<le> sint type \<and> sint type \<le> 2)" "\<not> (0 \<le> sint (mem w attr AND 15) \<and> sint (mem w attr AND 15) \<le> 2)"
    using assms(3,5) type_range by (auto simp: field_defs)
  with assms show ?thesis by (auto simp: attr_defs field_defs)
qed

lemma bad_attributes_refused_witness:
  "run_calls (quiet_env 7) [pthread_mutexattr_settype 4096 3, pthread_mutexattr_setpshared 4096 2,
      pthread_mutex_init 8192 4096, pthread_mutexattr_gettype 4096 8192] (one_word 4096 0x23) =
    Some ([EINVAL, EINVAL, EINVAL, EINVAL], one_word 4096 0x23)"
  using bad_attributes_refused [of 4096 8192 3 2 "one_word 4096 0x23" "quiet_env 7" 8192] by (simp add: field_defs)

section \<open>Recursive locking\<close>

text \<open>A recursive mutex of thread \<open>t\<close>, locked \<open>n\<close> times.\<close>

definition locked_word :: "bool \<Rightarrow> cint \<Rightarrow> nat \<Rightarrow> cint" where
  "locked_word s t n =
    encode \<lparr>a_kind = Recursive, a_shared = s, a_hold = (if n = 0 then Free else Held (unat t) (n - 1) False)\<rparr>"

lemma relock_step:
  assumes "m \<noteq> NULL" "valid_tid (env_tid E)" "quiet_kernel E" "n < 2048" "mem w m = locked_word s (env_tid E) n"
  shows "exec E 16 (pthread_mutex_lock m) w = Finished 0 (set_mutex w m (locked_word s (env_tid E) (Suc n)))"
proof (rule exec_less_fuel [of _ 12])
  show "exec E 12 (pthread_mutex_lock m) w = Finished 0 (set_mutex w m (locked_word s (env_tid E) (Suc n)))"
    using assms exec_lock_owned [OF assms(1), of w 0 1 "shbit s" 0 0 E]
      exec_lock_owned [OF assms(1), of w "unat (env_tid E)" 1 "shbit s" "n - 1" 1 E]
    by (cases n) (auto simp: locked_word_def fields_ok_def valid_tid_def)
qed simp_all

lemma relock_limit:
  assumes "m \<noteq> NULL" "valid_tid (env_tid E)" "quiet_kernel E" "mem w m = locked_word s (env_tid E) 2048"
  shows "exec E 16 (pthread_mutex_lock m) w = Finished EAGAIN w"
proof (rule exec_less_fuel [of _ 12])
  show "exec E 12 (pthread_mutex_lock m) w = Finished EAGAIN w"
    using assms exec_lock_owned [OF assms(1), of w "unat (env_tid E)" 1 "shbit s" 2047 1 E]
    by (auto simp: locked_word_def fields_ok_def valid_tid_def)
qed simp_all

lemma unlock_step:
  assumes "m \<noteq> NULL" "valid_tid (env_tid E)" "n < 2048" "mem w m = locked_word s (env_tid E) (Suc n)"
  shows "exec E 16 (pthread_mutex_unlock m) w = Finished 0 (set_mutex w m (locked_word s (env_tid E) n))"
proof (rule exec_less_fuel [of _ 8])
  show "exec E 8 (pthread_mutex_unlock m) w = Finished 0 (set_mutex w m (locked_word s (env_tid E) n))"
    using assms exec_unlock_owned [OF assms(1), of w "unat (env_tid E)" 1 "shbit s" n 1 E]
    by (auto simp: locked_word_def fields_ok_def valid_tid_def)
qed simp_all

lemma lock_many:
  assumes "m \<noteq> NULL" "valid_tid (env_tid E)" "quiet_kernel E" "d + n \<le> 2048" "mem w m = locked_word s (env_tid E) d"
  shows "run_calls E (replicate n (pthread_mutex_lock m)) w =
    Some (replicate n 0, set_mutex w m (locked_word s (env_tid E) (d + n)))"
  using assms(4,5)
proof (induction n arbitrary: d w)
  case 0
  then have e: "set_mutex w m (locked_word s (env_tid E) (d + 0)) = w" by (intro set_mutex_same) simp
  show ?case by (simp only: e replicate_0 run_calls.simps)
next
  case (Suc n)
  with relock_step [OF assms(1-3), of d w s]
    Suc.IH [of "Suc d" "set_mutex w m (locked_word s (env_tid E) (Suc d))"]
  show ?case by (simp cong: if_cong)
qed

lemma unlock_many:
  assumes "m \<noteq> NULL" "valid_tid (env_tid E)" "n \<le> 2048" "mem w m = locked_word s (env_tid E) n"
  shows "run_calls E (replicate n (pthread_mutex_unlock m)) w =
    Some (replicate n 0, set_mutex w m (locked_word s (env_tid E) 0))"
  using assms(3,4)
proof (induction n arbitrary: w)
  case 0
  then have e: "set_mutex w m (locked_word s (env_tid E) 0) = w" by (intro set_mutex_same) simp
  show ?case by (simp only: e replicate_0 run_calls.simps)
next
  case (Suc n)
  with unlock_step [OF assms(1,2), of n w s] Suc.IH [of "set_mutex w m (locked_word s (env_tid E) n)"]
  show ?case by (simp cong: if_cong)
qed

text \<open>C21: on a free recursive mutex, up to 2048 locks followed by as many unlocks all succeed and leave
  the world as it was, with no wake-up issued.\<close>

theorem lock_unlock_round_trip:
  assumes "m \<noteq> NULL" "valid_tid (env_tid E)" "quiet_kernel E" "n \<le> 2048"
    and "mem w m = encode \<lparr>a_kind = Recursive, a_shared = s, a_hold = Free\<rparr>"
  shows "run_calls E (replicate n (pthread_mutex_lock m) @ replicate n (pthread_mutex_unlock m)) w =
    Some (replicate (2 * n) 0, w)"
proof -
  have w: "mem w m = locked_word s (env_tid E) 0" using assms(5) by (simp add: locked_word_def)
  then show ?thesis
    using lock_many [OF assms(1-3) _ w, of n] assms(4)
      unlock_many [OF assms(1,2,4), of "set_mutex w m (locked_word s (env_tid E) n)"]
    by (simp add: run_calls_append set_mutex_same replicate_add [symmetric] mult_2)
qed

lemma lock_unlock_round_trip_witness:
  "run_calls (quiet_env 7) (replicate 2048 (pthread_mutex_lock 4096) @ replicate 2048 (pthread_mutex_unlock 4096))
      (one_word 4096 0x4000) = Some (replicate 4096 0, one_word 4096 0x4000)"
  using lock_unlock_round_trip [of 4096 "quiet_env 7" 2048 "one_word 4096 0x4000" False]
  by (simp add: valid_tid_def enc_def shbit_def)

text \<open>C22: the 2049th lock of a recursive mutex is refused with \<open>EAGAIN\<close>; the counter field does not
  overflow into its neighbours.\<close>

theorem recursion_limit:
  assumes "m \<noteq> NULL" "valid_tid (env_tid E)" "quiet_kernel E"
    and "mem w m = encode \<lparr>a_kind = Recursive, a_shared = s, a_hold = Free\<rparr>"
  shows "run_calls E (replicate 2049 (pthread_mutex_lock m)) w =
    Some (replicate 2048 0 @ [EAGAIN],
      set_mutex w m (encode \<lparr>a_kind = Recursive, a_shared = s, a_hold = Held (unat (env_tid E)) 2047 False\<rparr>))"
proof -
  have w: "mem w m = locked_word s (env_tid E) 0" using assms(4) by (simp add: locked_word_def)
  have "run_calls E (replicate 2048 (pthread_mutex_lock m) @ [pthread_mutex_lock m]) w =
      Some (replicate 2048 0 @ [EAGAIN], set_mutex w m (locked_word s (env_tid E) 2048))"
    using lock_many [OF assms(1-3) _ w, of 2048] relock_limit [OF assms(1-3), of _ s]
    by (simp add: run_calls_append)
  moreover have "replicate 2049 x = replicate 2048 x @ [x]" for x :: prog
    using replicate_add [of 2048 1 x] by simp
  ultimately show ?thesis by (simp add: locked_word_def)
qed

lemma recursion_limit_witness:
  "run_calls (quiet_env 7) (replicate 2049 (pthread_mutex_lock 4096)) (one_word 4096 0x4000) =
    Some (replicate 2048 0 @ [EAGAIN], set_mutex (one_word 4096 0x4000) 4096 0x75ffd)"
  using recursion_limit [of 4096 "quiet_env 7" "one_word 4096 0x4000" False]
  by (simp add: valid_tid_def enc_def shbit_def)

section \<open>Destruction\<close>

lemma destroy_impl: "pthread_mutex_trylock_impl m = pthread_mutex_trylock m"
  by (simp add: pthread_mutex_trylock_def)

lemma exec_bind:
  "exec E n p w = Finished r w' \<Longrightarrow> exec E n' (f r) w' = out \<Longrightarrow> out \<noteq> Out_of_fuel \<Longrightarrow>
   exec E (n + n') (bind p f) w = out"
proof (induction E n p w rule: exec.induct)
  case (2 E n r' w)
  then have "exec E n' (f r) w' = out" "r' = r" "w = w'" by auto
  with 2(3) exec_more_fuel [of E n' "f r" w' out "Suc n"] show ?case by (simp add: ac_simps)
next
  case (8 E n a sh v ts k w)
  then show ?case by (cases "env_wait E w a v ts") auto
next
  case (13 E n l k w)
  then show ?case by (simp add: bind_assoc)
qed (auto split: if_splits)

lemma destroy_after_trylock:
  assumes "m \<noteq> NULL" "exec E 8 (pthread_mutex_trylock m) w = Finished r w'"
  shows "exec E 16 (pthread_mutex_destroy m) w =
    (if r = 0 then Finished 0 (set_mutex w' m 0xdead10cc) else Finished r w')"
  using exec_bind [OF assms(2), of 8 "\<lambda>ret. if ret \<noteq> 0 then Return ret else Store m 0xdead10cc (Return 0)"] assms(1)
  unfolding pthread_mutex_destroy_def destroy_impl by (auto split: if_splits)

text \<open>The value a destroyed mutex has reads as a normal mutex in no state at all: nobody gets it.\<close>

lemma destroyed_word:
  assumes "m \<noteq> NULL" "mem w m = 0xdead10cc"
  shows "exec E 8 (pthread_mutex_trylock m) w = Finished EBUSY w"
  using assms by (simp add: mutex_defs field_masks Let_def)

text \<open>A free mutex of any kind can be destroyed; afterwards trylock and a second destroy both
  report \<open>EBUSY\<close> and leave it alone.\<close>

theorem destroy_free_mutex:
  assumes "m \<noteq> NULL" "valid_tid (env_tid E)" "mem w m = encode \<lparr>a_kind = k, a_shared = s, a_hold = Free\<rparr>"
  shows "run_calls E [pthread_mutex_destroy m, pthread_mutex_trylock m, pthread_mutex_destroy m] w =
    Some ([0, EBUSY, EBUSY], set_mutex w m 0xdead10cc)"
proof -
  have k: "fields_ok 0 (kind_bits k) (shbit s) 0 0" by (cases k) (auto simp: fields_ok_def)
  have "exec E 8 (pthread_mutex_trylock m) w =
      Finished 0 (set_mutex w m (enc (if k = Normal then 0 else unat (env_tid E)) (kind_bits k) (shbit s) 0 1))"
    using assms exec_trylock_normal [OF assms(1), of w "shbit s" 0 E]
      exec_trylock_owned [OF assms(1) _ k _ assms(2), of w] by (cases k) (auto simp: valid_tid_def)
  from destroy_after_trylock [OF assms(1) this]
  have 1: "exec E 16 (pthread_mutex_destroy m) w = Finished 0 (set_mutex w m 0xdead10cc)"
    by (simp cong: if_cong)
  let ?w = "set_mutex w m 0xdead10cc"
  have 2: "exec E 8 (pthread_mutex_trylock m) ?w = Finished EBUSY ?w"
    using assms(1) by (intro destroyed_word) simp_all
  then have 3: "exec E 16 (pthread_mutex_trylock m) ?w = Finished EBUSY ?w"
    by (rule exec_less_fuel) simp_all
  from destroy_after_trylock [OF assms(1) 2] have 4: "exec E 16 (pthread_mutex_destroy m) ?w = Finished EBUSY ?w"
    by simp
  show ?thesis by (simp only: run_calls.simps 1 3 4 outcome.case option.case prod.case)
qed

lemma destroy_free_mutex_witness:
  "run_calls (quiet_env 7) [pthread_mutex_destroy 4096, pthread_mutex_trylock 4096, pthread_mutex_destroy 4096]
      (one_word 4096 0x8000) = Some ([0, EBUSY, EBUSY], set_mutex (one_word 4096 0x8000) 4096 0xdead10cc)"
  using destroy_free_mutex [of 4096 "quiet_env 7" "one_word 4096 0x8000" Errorcheck False]
  by (simp add: valid_tid_def enc_def shbit_def)

text \<open>A mutex that somebody holds is not destroyed: \<open>EBUSY\<close> (\<open>EDEADLK\<close> for the owner of an
  error-checking mutex), and the mutex keeps its word. The exception is the owner of a recursive mutex
  below its limit, who destroys it while it is locked.\<close>

theorem destroy_held_mutex:
  assumes "m \<noteq> NULL" "valid_tid (env_tid E)" "hold_ok k (Held t c b)"
    and "mem w m = encode \<lparr>a_kind = k, a_shared = s, a_hold = Held t c b\<rparr>"
  shows "exec E 16 (pthread_mutex_destroy m) w =
    (if k \<noteq> Normal \<and> t = unat (env_tid E) then
       (if k = Errorcheck then Finished EDEADLK w
        else if c = 2047 then Finished EAGAIN w
        else Finished 0 (set_mutex w m 0xdead10cc))
     else Finished EBUSY w)"
proof -
  have ok: "k \<noteq> Normal \<Longrightarrow> fields_ok t (kind_bits k) (shbit s) c (if b then 2 else 1)" "k = Normal \<Longrightarrow> t = 0 \<and> c = 0"
    using assms(3) by (cases k; auto simp: fields_ok_def)+
  have owned: "exec E 8 (pthread_mutex_trylock m) w =
      (if t = unat (env_tid E) then
         if k = Errorcheck then Finished EDEADLK w
         else if c = 2047 then Finished EAGAIN w
         else Finished 0 (set_mutex w m (enc t (kind_bits k) (shbit s) (Suc c) (if b then 2 else 1)))
       else Finished EBUSY w)" if "k \<noteq> Normal"
    using that exec_trylock_owned [OF assms(1) _ ok(1) [OF that] _ assms(2), of w] assms(3,4)
    by (cases k) (auto split: if_splits)
  have normal: "exec E 8 (pthread_mutex_trylock m) w = Finished EBUSY w" if "k = Normal"
    using that ok(2) exec_trylock_normal [OF assms(1), of w "shbit s" "if b then 2 else 1" E] assms(4) by simp
  show ?thesis
  proof (cases "k = Normal")
    case True
    with destroy_after_trylock [OF assms(1) normal] show ?thesis by simp
  next
    case False
    from destroy_after_trylock [OF assms(1)] owned [OF False] False show ?thesis
      by (cases "t = unat (env_tid E)"; cases "k = Errorcheck"; cases "c = 2047") (simp_all cong: if_cong)
  qed
qed

lemma destroy_held_mutex_witness:
  "exec (quiet_env 7) 16 (pthread_mutex_destroy 4096) (one_word 4096 0x74001) =
    Finished 0 (set_mutex (one_word 4096 0x74001) 4096 0xdead10cc)"
  using destroy_held_mutex [of 4096 "quiet_env 7" Recursive 7 0 False "one_word 4096 0x74001" False]
  by (simp add: valid_tid_def enc_def shbit_def)

section \<open>Thread ids\<close>

text \<open>The owner field has 16 bits; a wider thread id is cut to its low half.\<close>

lemma wide_acquire:
  assumes "ty < 4" "sh < 2"
  shows "MUTEX_OWNER_TO_BITS t OR enc 0 ty sh 0 0 OR MUTEX_STATE_BITS_LOCKED_UNCONTENDED =
    enc (unat t mod 65536) ty sh 0 1"
proof -
  let ?t = "t AND mask 16 :: cint"
  have "unat ?t = unat t mod 65536"
    by (simp only: take_bit_eq_mask [symmetric] unat_take_bit_mod) simp
  moreover have "MUTEX_OWNER_TO_BITS t = MUTEX_OWNER_TO_BITS ?t"
    unfolding owner_macros
    by (simp add: and.assoc)
  ultimately show ?thesis using enc_acquire(1) [of ?t ty sh] assms by simp
qed

lemmas wide_simps = mutex_defs enc_simps enc_inject fields_ok_def Let_def

text \<open>A thread id of more than 16 bits breaks the owner check: the thread acquires a free recursive
  or error-checking mutex, but is then refused when it unlocks it, and cannot relock it either.\<close>

theorem wide_tid_never_owner:
  assumes "m \<noteq> NULL" "65536 \<le> unat (env_tid E)" "k \<noteq> Normal"
    and "mem w m = encode \<lparr>a_kind = k, a_shared = s, a_hold = Free\<rparr>"
  shows "run_calls E [pthread_mutex_trylock m, pthread_mutex_unlock m, pthread_mutex_trylock m] w =
    Some ([0, EPERM, EBUSY], set_mutex w m
      (encode \<lparr>a_kind = k, a_shared = s, a_hold = Held (unat (env_tid E) mod 65536) 0 False\<rparr>))"
proof -
  let ?w = "set_mutex w m (enc (unat (env_tid E) mod 65536) (kind_bits k) (shbit s) 0 1)"
  have k: "kind_bits k < 4" "kind_bits k \<noteq> 0" using assms(3) by (cases k; simp)+
  have t: "unat (env_tid E) \<noteq> unat (env_tid E) mod 65536" "unat (env_tid E) \<noteq> 0"
    using assms(2) mod_less_divisor [of 65536 "unat (env_tid E)"] by linarith+
  have 1: "exec E 16 (pthread_mutex_trylock m) w = Finished 0 ?w"
    using assms k t wide_acquire [OF k(1) shbit_less, of "env_tid E" s] by (simp add: wide_simps)
  have 2: "exec E 16 (pthread_mutex_unlock m) ?w = Finished EPERM ?w"
    using assms(1) k t by (simp add: wide_simps)
  have 3: "exec E 16 (pthread_mutex_trylock m) ?w = Finished EBUSY ?w"
    using assms(1) k t wide_acquire [OF k(1) shbit_less, of "env_tid E" s] by (simp add: wide_simps)
  show ?thesis by (simp only: run_calls.simps 1 2 3 outcome.case option.case prod.case encode_simps) simp
qed

lemma wide_tid_never_owner_witness:
  "run_calls (quiet_env 70000) [pthread_mutex_trylock 4096, pthread_mutex_unlock 4096, pthread_mutex_trylock 4096]
      (one_word 4096 0x4000) = Some ([0, EPERM, EBUSY], set_mutex (one_word 4096 0x4000) 4096 0x11704001)"
  using wide_tid_never_owner [of 4096 "quiet_env 70000" Recursive "one_word 4096 0x4000" False]
  by (simp add: enc_def shbit_def)

end
