(* ===== verification/Timespec.thy ===== *)
theory Timespec
  imports Mutex
begin

text \<open>
  The two time computations of \<^verbatim>\<open>pthread.c\<close> against exact arithmetic: a \<open>timespec\<close> is a number of
  nanoseconds, and the 32-bit computations agree with integers as long as the seconds do not leave
  the range of a 32-bit \<open>long\<close>.
\<close>

definition nanos :: "timespec \<Rightarrow> int" where
  "nanos ts = sint (tv_sec ts) * 1000000000 + sint (tv_nsec ts)"

definition timespec_ok :: "timespec \<Rightarrow> bool" where
  "timespec_ok ts \<longleftrightarrow> 0 \<le> sint (tv_sec ts) \<and> 0 \<le> sint (tv_nsec ts) \<and> sint (tv_nsec ts) < 1000000000"

section \<open>Signed 32-bit arithmetic without overflow\<close>

lemma sint_add:
  "- 2147483648 \<le> sint a + sint b \<Longrightarrow> sint a + sint b < 2147483648 \<Longrightarrow> sint (a + b :: cint) = sint a + sint b"
  by (simp add: sint_word_ariths signed_take_bit_int_eq_self)

lemma sint_sub:
  "- 2147483648 \<le> sint a - sint b \<Longrightarrow> sint a - sint b < 2147483648 \<Longrightarrow> sint (a - b :: cint) = sint a - sint b"
  by (simp add: sint_word_ariths signed_take_bit_int_eq_self)

section \<open>The time left\<close>

lemma timespec_left_sub:
  assumes "timespec_ok abstime" "timespec_ok now"
  shows "nanos (snd (timespec_left abstime now)) = nanos abstime - nanos now"
    and "0 \<le> sint (tv_nsec (snd (timespec_left abstime now)))"
    and "sint (tv_nsec (snd (timespec_left abstime now))) < 1000000000"
    and "fst (timespec_left abstime now) =
      (if sint (tv_sec (snd (timespec_left abstime now))) < 0 then - 1 else 0)"
proof -
  let ?s = "tv_sec abstime - tv_sec now" and ?n = "tv_nsec abstime - tv_nsec now"
  note ok = assms [unfolded timespec_ok_def]
  have s: "sint ?s = sint (tv_sec abstime) - sint (tv_sec now)"
    using ok sint_range [of "tv_sec abstime"] sint_range [of "tv_sec now"] by (intro sint_sub) linarith+
  have n: "sint ?n = sint (tv_nsec abstime) - sint (tv_nsec now)"
    using ok by (intro sint_sub) linarith+
  have s1: "sint (?s - 1) = sint ?s - 1"
    using ok s sint_range [of "tv_sec abstime"] sint_range [of "tv_sec now"]
      sint_sub [of ?s 1] by simp
  have n1: "sint (?n + 1000000000) = sint ?n + 1000000000" if "sint ?n < 0"
    using that ok n sint_add [of ?n 1000000000] by simp
  show "nanos (snd (timespec_left abstime now)) = nanos abstime - nanos now"
    "0 \<le> sint (tv_nsec (snd (timespec_left abstime now)))"
    "sint (tv_nsec (snd (timespec_left abstime now))) < 1000000000"
    "fst (timespec_left abstime now) =
      (if sint (tv_sec (snd (timespec_left abstime now))) < 0 then - 1 else 0)"
    using ok s n s1 n1 by (auto simp: timespec_left_def nanos_def Let_def algebra_simps)
qed

lemma timespec_left_expired:
  assumes "timespec_ok abstime" "timespec_ok now"
  shows "sint (fst (timespec_left abstime now)) < 0 \<longleftrightarrow> nanos abstime < nanos now"
    and "fst (timespec_left abstime now) = (if nanos abstime < nanos now then - 1 else 0)"
proof -
  note l = timespec_left_sub [OF assms]
  have "sint (tv_sec (snd (timespec_left abstime now))) < 0 \<longleftrightarrow> nanos abstime < nanos now"
    using l(1-3) unfolding nanos_def by linarith
  with l(4) show "sint (fst (timespec_left abstime now)) < 0 \<longleftrightarrow> nanos abstime < nanos now"
    "fst (timespec_left abstime now) = (if nanos abstime < nanos now then - 1 else 0)" by auto
qed

text \<open>C37: \<open>__timespec_to_absolute\<close> leaves in \<open>ts\<close> exactly the time between now and the deadline, with the
  nanoseconds normalised, and returns a negative value exactly when the deadline has passed.\<close>

theorem timespec_left_correct:
  assumes "timespec_ok abstime" "timespec_ok now"
  shows "nanos (snd (timespec_left abstime now)) = nanos abstime - nanos now \<and>
    sint (tv_nsec (snd (timespec_left abstime now))) \<in> {0..<1000000000} \<and>
    fst (timespec_left abstime now) = (if nanos abstime < nanos now then - 1 else 0)"
  using timespec_left_sub [OF assms] timespec_left_expired [OF assms] by simp

lemma timespec_left_correct_witness:
  "nanos (snd (timespec_left \<lparr>tv_sec = 5, tv_nsec = 100\<rparr> \<lparr>tv_sec = 3, tv_nsec = 999999999\<rparr>)) = 1000000101 \<and>
   fst (timespec_left \<lparr>tv_sec = 5, tv_nsec = 100\<rparr> \<lparr>tv_sec = 3, tv_nsec = 999999999\<rparr>) = 0"
  using timespec_left_correct [of "\<lparr>tv_sec = 5, tv_nsec = 100\<rparr>" "\<lparr>tv_sec = 3, tv_nsec = 999999999\<rparr>"]
  by (simp add: timespec_ok_def nanos_def)

section \<open>Deadlines\<close>

lemma msec_parts:
  "sint (msecs div 1000 :: cint) = int (unat msecs div 1000)"
  "sint (msecs mod 1000 * 1000000 :: cint) = int (unat msecs mod 1000) * 1000000"
proof -
  have d: "unat (msecs div 1000) = unat msecs div 1000" by (simp add: unat_div)
  have "unat msecs div 1000 < 4294968" using unat_less_2p32 [of msecs] by linarith
  with d sint_of_unat [of "msecs div 1000"] show "sint (msecs div 1000) = int (unat msecs div 1000)" by simp
  have m: "unat (msecs mod 1000) = unat msecs mod 1000" by (simp add: unat_mod)
  have less: "unat msecs mod 1000 * 1000000 < 1000000000" by simp
  have "unat (msecs mod 1000 * 1000000) = unat msecs mod 1000 * 1000000"
    using less by (simp add: unat_word_ariths m)
  with less sint_of_unat [of "msecs mod 1000 * 1000000"]
  show "sint (msecs mod 1000 * 1000000) = int (unat msecs mod 1000) * 1000000" by simp
qed

lemma timespec_add_ok:
  assumes "timespec_ok now" "sint (tv_sec now) < 2143188680"
  shows "timespec_ok (timespec_add_msec now msecs)"
    and "nanos (timespec_add_msec now msecs) = nanos now + int (unat msecs) * 1000000"
proof -
  let ?s = "tv_sec now + msecs div 1000" and ?n = "tv_nsec now + msecs mod 1000 * 1000000"
  note ok = assms(1) [unfolded timespec_ok_def]
  have q: "unat msecs div 1000 < 4294968" using unat_less_2p32 [of msecs] by linarith
  have s: "sint ?s = sint (tv_sec now) + int (unat msecs div 1000)"
    using ok assms(2) q sint_add [of "tv_sec now" "msecs div 1000"] by (simp add: msec_parts(1))
  have r: "int (unat msecs mod 1000) * 1000000 < 1000000000" "0 \<le> int (unat msecs mod 1000)" by simp_all
  have n: "sint ?n = sint (tv_nsec now) + int (unat msecs mod 1000) * 1000000"
    by (subst sint_add; unfold msec_parts(2)) (use ok r in linarith)+
  have s1: "sint (?s + 1) = sint ?s + 1"
    using ok assms(2) q s sint_add [of ?s 1] by simp
  have n1: "sint (?n - 1000000000) = sint ?n - 1000000000" if "1000000000 \<le> sint ?n"
  proof -
    have "sint ?n < 2000000000" using n r ok by linarith
    with that sint_sub [of ?n 1000000000] show ?thesis by simp
  qed
  have "int (unat msecs) = int (unat msecs div 1000) * 1000 + int (unat msecs mod 1000)"
    by (metis of_nat_add of_nat_mult of_nat_numeral div_mult_mod_eq)
  then show "nanos (timespec_add_msec now msecs) = nanos now + int (unat msecs) * 1000000"
    using s n s1 n1 by (auto simp: timespec_add_msec_def nanos_def Let_def)
  show "timespec_ok (timespec_add_msec now msecs)"
    using ok r s n s1 n1 by (auto simp: timespec_add_msec_def timespec_ok_def Let_def)
qed

text \<open>\<open>__timespec_to_relative_msec\<close> computes exactly the time \<open>msecs\<close> milliseconds from now, for every
  unsigned \<open>msecs\<close>, normalised, as long as the clock is not within 50 days of the end of 32-bit time.\<close>

theorem timespec_add_msec_correct:
  assumes "timespec_ok now" "sint (tv_sec now) < 2143188680"
  shows "timespec_ok (timespec_add_msec now msecs) \<and>
    nanos (timespec_add_msec now msecs) = nanos now + int (unat msecs) * 1000000"
  using timespec_add_ok [OF assms] by simp

lemma timespec_add_msec_correct_witness:
  "nanos (timespec_add_msec \<lparr>tv_sec = 7, tv_nsec = 600000000\<rparr> 4294967295) = 4294974895000000"
  using timespec_add_msec_correct [of "\<lparr>tv_sec = 7, tv_nsec = 600000000\<rparr>" 4294967295]
  by (simp add: timespec_ok_def nanos_def)

end
