(* ===== verification/Cond_Spec.thy ===== *)
theory Cond_Spec
  imports Mutex_Calls Timespec
begin

text \<open>
  What the condition variables promise to one caller: the counter arithmetic of \<open>__pthread_cond_pulse\<close>, its period,
  signalling, and the timed waits. That no signal is missed while threads interleave is shown in theory \<open>Cond_Conc\<close>.
\<close>

section \<open>The counter\<close>

text \<open>Bit 0, the sharing flag, is not touched by the subtraction: a pulse takes 2 off the word.\<close>

lemma pulse_value_sub: "pulse_value (v AND NOT COND_COUNTER_MASK) v = v - 2"
proof -
  have bit0: "(v - 2) AND 1 = v AND 1"
  proof -
    have "even (v - 2) \<longleftrightarrow> even v" by simp
    then show ?thesis by (simp add: and_one_eq mod2_eq_if)
  qed
  have "pulse_value (v AND NOT COND_COUNTER_MASK) v = ((v - 2) AND NOT 1) OR ((v - 2) AND 1)"
    unfolding pulse_value_def field_defs bit0 by simp
  also have "\<dots> = v - 2"
    by (rule bit_eqI) (auto simp: bit_simps)
  finally show ?thesis .
qed

lemma pulse_keeps_flag: "(v - 2) AND COND_SHARED_MASK = v AND COND_SHARED_MASK" for v :: cint
  unfolding field_defs by (simp add: and_one_eq mod2_eq_if)

lemma pulses_period: "v - 2 * of_nat n = v \<longleftrightarrow> 2 ^ 31 dvd n" for v :: cint
proof -
  have "v - 2 * of_nat n = v \<longleftrightarrow> (of_nat (2 * n) :: cint) = 0" by simp
  also have "\<dots> \<longleftrightarrow> 2 ^ 32 dvd 2 * n" by (subst word_of_nat_eq_0_iff) simp
  also have "\<dots> \<longleftrightarrow> 2 ^ 31 dvd n" by (auto simp: dvd_def)
  finally show ?thesis .
qed

section \<open>Signals\<close>

definition pulsed :: "world \<Rightarrow> addr \<Rightarrow> cint \<Rightarrow> world" where
  "pulsed w cond counter = w\<lparr>mem := (mem w)(cond := mem w cond - 2),
     wakes := wakes w @ [(cond, mem w cond AND COND_SHARED_MASK, counter)]\<rparr>"

lemma shared_flag: "COND_IS_SHARED (v - 2) = v AND COND_SHARED_MASK"
  using pulse_keeps_flag [of v] by (simp add: COND_IS_SHARED_def) (simp add: field_defs and_one_eq mod2_eq_if)

lemma exec_pulse:
  assumes "cond \<noteq> NULL"
  shows "exec E 16 (pthread_cond_pulse cond counter) w = Finished 0 (pulsed w cond counter)"
  using assms by (simp add: pthread_cond_pulse_def cond_pulse_loop_def pulse_value_sub Let_def pulsed_def shared_flag)

text \<open>\<open>pthread_cond_signal\<close> and \<open>pthread_cond_broadcast\<close> take one step of 2 off the counter, keep the
  sharing flag, and then wake one thread, or all of them, with the flag of the variable.\<close>

theorem cond_signal_pulses:
  assumes "cond \<noteq> NULL"
  shows "exec E 16 (pthread_cond_signal cond) w = Finished 0 (pulsed w cond 1) \<and>
    exec E 16 (pthread_cond_broadcast cond) w = Finished 0 (pulsed w cond INT_MAX) \<and>
    mem (pulsed w cond counter) cond AND COND_SHARED_MASK = mem w cond AND COND_SHARED_MASK \<and>
    mem (pulsed w cond counter) cond = mem w cond - COND_COUNTER_INCREMENT"
  using exec_pulse [OF assms] pulse_keeps_flag [of "mem w cond"]
  unfolding pthread_cond_signal_def pthread_cond_broadcast_def by (simp add: pulsed_def COND_COUNTER_INCREMENT_def)

lemma cond_signal_pulses_witness:
  "exec (quiet_env 7) 16 (pthread_cond_signal 8192) (one_word 8192 1) =
    Finished 0 ((one_word 8192 1)\<lparr>mem := (mem (one_word 8192 1))(8192 := - 1), wakes := [(8192, 1, 1)]\<rparr>)"
  using cond_signal_pulses [of 8192 "quiet_env 7" "one_word 8192 1"] by (simp add: pulsed_def field_defs)

fun pulses :: "nat \<Rightarrow> addr \<Rightarrow> cint \<Rightarrow> world \<Rightarrow> world" where
  "pulses 0 cond counter w = w"
| "pulses (Suc n) cond counter w = pulses n cond counter (pulsed w cond counter)"

lemma pulses_value: "mem (pulses n cond counter w) cond = mem w cond - 2 * of_nat n"
  by (induction n arbitrary: w) (simp_all add: pulsed_def algebra_simps)

lemma run_signals:
  "cond \<noteq> NULL \<Longrightarrow> run_calls E (replicate n (pthread_cond_signal cond)) w = Some (replicate n 0, pulses n cond 1 w)"
  by (induction n arbitrary: w) (simp_all add: pthread_cond_signal_def exec_pulse)

text \<open>The counter comes back to a value after exactly \<open>2\<^sup>3\<^sup>1\<close> signals and no sooner: a waiter that has
  read the variable cannot mistake \<open>n\<close> signals for none unless \<open>n\<close> is a multiple of \<open>2\<^sup>3\<^sup>1\<close>.\<close>

theorem cond_counter_period:
  assumes "cond \<noteq> NULL"
  shows "\<exists>w'. run_calls E (replicate n (pthread_cond_signal cond)) w = Some (replicate n 0, w') \<and>
    (mem w' cond = mem w cond \<longleftrightarrow> 2 ^ 31 dvd n)"
  using run_signals [OF assms] pulses_period by (auto simp: pulses_value)

lemma cond_counter_period_witness:
  "\<exists>w'. run_calls (quiet_env 7) (replicate 2147483648 (pthread_cond_signal 8192)) (one_word 8192 6) =
     Some (replicate 2147483648 0, w') \<and> mem w' 8192 = 6"
  using cond_counter_period [of 8192 "quiet_env 7" 2147483648 "one_word 8192 6"] by simp

section \<open>Waiting\<close>

text \<open>
  A wait from the moment it has read the variable: \<open>after_load p v\<close> is the program \<open>p\<close> after its first
  access, a load that returned \<open>v\<close>.
\<close>

fun after_load :: "prog \<Rightarrow> cint \<Rightarrow> prog" where
  "after_load (Load a k) v = k v"
| "after_load p v = p"

section \<open>Timed waits\<close>

text \<open>A kernel in which nobody signals: a wait of \<open>t\<close> nanoseconds on an unchanged word times out.\<close>

definition times_out :: "env \<Rightarrow> addr \<Rightarrow> int \<Rightarrow> bool" where
  "times_out E cond t \<longleftrightarrow>
    (\<forall>w v ts. mem w cond = v \<longrightarrow> nanos ts = t \<longrightarrow> sint (tv_nsec ts) \<in> {0..<1000000000} \<longrightarrow>
      env_wait E w cond v (Some ts) = Some (- ETIMEDOUT, w))"

text \<open>A mutex that thread \<open>t\<close> holds, of any kind, any number of times, with waiters or without.\<close>

definition holds :: "cint \<Rightarrow> amutex \<Rightarrow> bool" where
  "holds t a \<longleftrightarrow> valid_tid t \<and> amutex_ok a \<and>
    (case a_hold a of Free \<Rightarrow> False | Held u c b \<Rightarrow> u = (if a_kind a = Normal then 0 else unat t))"

text \<open>The world after a thread that runs alone has given the mutex up once and has taken it back: nothing has changed, unless
  it was the last level of a contended mutex, which is released with a wake-up and comes back without the mark.\<close>

definition retaken :: "world \<Rightarrow> addr \<Rightarrow> amutex \<Rightarrow> world" where
  "retaken w m a =
    (case a_hold a of Free \<Rightarrow> w
     | Held t c b \<Rightarrow>
         if b \<and> c = 0
         then set_mutex w m (encode (a\<lparr>a_hold := Held t 0 False\<rparr>))
           \<lparr>wakes := wakes w @ [(m, if a_shared a then MUTEX_SHARED_MASK else 0, 1)]\<rparr>
         else w)"

text \<open>Unlocking and locking again, in the abstract.\<close>

lemma a_unlock_lock:
  assumes "holds t a" "a_hold a = Held u c b"
  shows "a_unlock (unat t) (a_kind a) (a_hold a) = (0, if c = 0 then Free else Held u (c - 1) b, b \<and> c = 0)"
    and "a_lock (unat t) (a_kind a) (if c = 0 then Free else Held u (c - 1) b) = Locks 0 (Held u c (b \<and> c \<noteq> 0))"
    and "amutex_ok (a\<lparr>a_hold := if c = 0 then Free else Held u (c - 1) b\<rparr>)"
  using assms by (cases "a_kind a"; auto simp: holds_def amutex_ok_def a_unlock_def a_lock_def)+

lemma wait_times_out:
  assumes "cond \<noteq> NULL" "m \<noteq> NULL" "cond \<noteq> m" "times_out E cond (nanos ts)" "sint (tv_nsec ts) \<in> {0..<1000000000}"
    and "quiet_kernel E" "holds (env_tid E) a" "mem w m = encode a"
  shows "exec E 24 (cond_timedwait_relative cond m (Some ts)) w = Finished ETIMEDOUT (retaken w m a)"
proof -
  obtain u c b where h: "a_hold a = Held u c b" using assms(7) by (cases "a_hold a") (auto simp: holds_def)
  note steps = a_unlock_lock [OF assms(7) h]
  have ok: "valid_tid (env_tid E)" "amutex_ok a" using assms(7) by (simp_all add: holds_def)
  let ?a = "a\<lparr>a_hold := if c = 0 then Free else Held u (c - 1) b\<rparr>"
  define w1 where "w1 = set_mutex w m (encode ?a)
    \<lparr>wakes := wakes w @ (if b \<and> c = 0 then [(m, if a_shared a then MUTEX_SHARED_MASK else 0, 1)] else [])\<rparr>"
  have unlock: "exec E 8 (pthread_mutex_unlock m) w = Finished 0 w1"
    unfolding w1_def by (rule exec_unlock [OF assms(2) ok assms(8) steps(1)])
  have same: "mem w1 cond = mem w cond" using assms(3) by (simp add: w1_def)
  have "exec E 12 (pthread_mutex_lock m) w1 = Finished 0 (retaken w m a)"
    using exec_lock [OF assms(2) ok(1) steps(3), of w1] assms(6) steps(2) h assms(8)
    by (auto simp: retaken_def encode_def fun_upd_idem w1_def)
  from exec_bind [OF this, of 1 "\<lambda>_. Return ETIMEDOUT"]
  have lock: "exec E 13 (bind (pthread_mutex_lock m) (\<lambda>_. Return ETIMEDOUT)) w1 = Finished ETIMEDOUT (retaken w m a)"
    by simp
  have wait: "env_wait E w1 cond (mem w cond) (Some ts) = Some (- ETIMEDOUT, w1)"
    using assms(4) [unfolded times_out_def, rule_format, OF same refl] assms(5) by simp
  let ?rest = "Load cond (\<lambda>value. Futex_wait cond (COND_IS_SHARED value) (mem w cond) (Some ts) (\<lambda>status.
      bind (pthread_mutex_lock m) (\<lambda>_. if status = - ETIMEDOUT then Return ETIMEDOUT else Return 0)))"
  have "exec E 15 ?rest w1 = Finished ETIMEDOUT (retaken w m a)"
    using assms(1) wait lock by simp
  from exec_bind [OF unlock, of 15 "\<lambda>_. ?rest", OF this] assms(1) show ?thesis
    by (simp add: cond_timedwait_relative_def)
qed

text \<open>C35: \<open>pthread_cond_timedwait\<close>, run alone with a mutex of any kind that the caller holds any number of times, contended or
  not, reports \<open>ETIMEDOUT\<close>. If the deadline has passed it does so at once and does not touch the mutex; otherwise it
  gives up one level of it, waits in the kernel for exactly the time left, and holds the mutex as often as before when
  it returns. Only the last level of a contended mutex is seen from outside: its release wakes a waiter.\<close>

theorem cond_timedwait_times_out:
  assumes "cond \<noteq> NULL" "m \<noteq> NULL" "cond \<noteq> m" "quiet_kernel E" "holds (env_tid E) a" "mem w m = encode a"
    and "timespec_ok abstime" "timespec_ok (env_clock E CLOCK_REALTIME (ticks w))"
    and "nanos (env_clock E CLOCK_REALTIME (ticks w)) \<le> nanos abstime \<Longrightarrow>
      times_out E cond (nanos abstime - nanos (env_clock E CLOCK_REALTIME (ticks w)))"
  shows "exec E 25 (pthread_cond_timedwait cond m (Some abstime)) w =
    Finished ETIMEDOUT
      ((if nanos abstime < nanos (env_clock E CLOCK_REALTIME (ticks w)) then w else retaken w m a)\<lparr>ticks := Suc (ticks w)\<rparr>)"
proof -
  let ?now = "env_clock E CLOCK_REALTIME (ticks w)"
  let ?w = "w\<lparr>ticks := Suc (ticks w)\<rparr>"
  obtain rc ts where l: "timespec_left abstime ?now = (rc, ts)" by fastforce
  note left = timespec_left_sub [OF assms(7,8), unfolded l]
  note rc = timespec_left_expired(1) [OF assms(7,8), unfolded l, simplified]
  have "exec E 24 (cond_timedwait_relative cond m (Some ts)) ?w = Finished ETIMEDOUT (retaken ?w m a)" if "\<not> sint rc < 0"
    using that rc left assms by (intro wait_times_out) simp_all
  moreover have "retaken ?w m a = (retaken w m a)\<lparr>ticks := Suc (ticks w)\<rparr>"
    by (simp add: retaken_def split: hold.split)
  ultimately have "exec E 24 (if sint rc < 0 then Return ETIMEDOUT else cond_timedwait_relative cond m (Some ts)) ?w =
      Finished ETIMEDOUT ((if nanos abstime < nanos ?now then w else retaken w m a)\<lparr>ticks := Suc (ticks w)\<rparr>)"
    using rc by auto
  moreover have "exec E (Suc 24) (pthread_cond_timedwait cond m (Some abstime)) w =
      exec E 24 (if sint rc < 0 then Return ETIMEDOUT else cond_timedwait_relative cond m (Some ts)) ?w"
    unfolding pthread_cond_timedwait_def cond_timedwait_clock_def timespec_to_absolute_def
    by (simp only: option.case exec.simps(10) l prod.case)
  ultimately show ?thesis by simp
qed

lemma quiet_times_out: "times_out (quiet_env t) cond n"
  by (simp add: times_out_def)

text \<open>A contended recursive mutex, held once by the caller, thread 7.\<close>

lemma cond_timedwait_times_out_witness:
  "exec (quiet_env 7) 25 (pthread_cond_timedwait 8192 4096 (Some \<lparr>tv_sec = 5, tv_nsec = 0\<rparr>))
      (one_word 4096 (encode \<lparr>a_kind = Recursive, a_shared = False, a_hold = Held 7 0 True\<rparr>)) =
    Finished ETIMEDOUT
      (set_mutex (one_word 4096 (encode \<lparr>a_kind = Recursive, a_shared = False, a_hold = Held 7 0 True\<rparr>))
        4096 (encode \<lparr>a_kind = Recursive, a_shared = False, a_hold = Held 7 0 False\<rparr>)
        \<lparr>wakes := [(4096, 0, 1)], ticks := Suc 0\<rparr>)"
  using cond_timedwait_times_out [of 8192 4096 "quiet_env 7" "\<lparr>a_kind = Recursive, a_shared = False, a_hold = Held 7 0 True\<rparr>"
      "one_word 4096 (encode \<lparr>a_kind = Recursive, a_shared = False, a_hold = Held 7 0 True\<rparr>)" "\<lparr>tv_sec = 5, tv_nsec = 0\<rparr>"]
    quiet_times_out
  by (simp add: timespec_ok_def holds_def retaken_def valid_tid_def amutex_ok_def nanos_def)

text \<open>\<open>pthread_cond_timeout_np\<close> waits exactly \<open>msecs\<close> milliseconds before it reports \<open>ETIMEDOUT\<close>, for
  every unsigned \<open>msecs\<close>, and holds the mutex as before when it returns.\<close>

theorem cond_timeout_np_times_out:
  assumes "cond \<noteq> NULL" "m \<noteq> NULL" "cond \<noteq> m" "quiet_kernel E" "holds (env_tid E) a" "mem w m = encode a"
    and "times_out E cond (int (unat msecs) * 1000000)"
  shows "exec E 24 (pthread_cond_timeout_np cond m msecs) w = Finished ETIMEDOUT (retaken w m a)"
proof -
  let ?ts = "\<lparr>tv_sec = msecs div 1000, tv_nsec = (msecs mod 1000) * 1000000\<rparr>"
  have "int (unat msecs) = int (unat msecs div 1000) * 1000 + int (unat msecs mod 1000)"
    by (metis of_nat_add of_nat_mult of_nat_numeral div_mult_mod_eq)
  then have n: "nanos ?ts = int (unat msecs) * 1000000" by (simp add: nanos_def msec_parts)
  have r: "int (unat msecs mod 1000) * 1000000 < 1000000000" by simp
  show ?thesis
    unfolding pthread_cond_timeout_np_def Let_def
    by (rule wait_times_out) (use assms n r in \<open>simp_all add: msec_parts\<close>)
qed

lemma cond_timeout_np_times_out_witness:
  "exec (quiet_env 7) 24 (pthread_cond_timeout_np 8192 4096 1500)
      (one_word 4096 (encode \<lparr>a_kind = Recursive, a_shared = False, a_hold = Held 7 3 True\<rparr>)) =
    Finished ETIMEDOUT (one_word 4096 (encode \<lparr>a_kind = Recursive, a_shared = False, a_hold = Held 7 3 True\<rparr>))"
  using cond_timeout_np_times_out [of 8192 4096 "quiet_env 7" "\<lparr>a_kind = Recursive, a_shared = False, a_hold = Held 7 3 True\<rparr>"
      "one_word 4096 (encode \<lparr>a_kind = Recursive, a_shared = False, a_hold = Held 7 3 True\<rparr>)" 1500]
    quiet_times_out
  by (simp add: holds_def retaken_def valid_tid_def amutex_ok_def)

section \<open>Attributes\<close>

text \<open>A condition variable initialised with a process-shared attribute has the sharing flag, any other
  has not; a sharing value other than the two is refused and changes nothing.\<close>

lemma cond_init_shared:
  assumes "cond \<noteq> NULL" "attr \<noteq> NULL" "cond \<noteq> attr" "pshared \<notin> {PTHREAD_PROCESS_PRIVATE, PTHREAD_PROCESS_SHARED}"
  shows "run_calls E [pthread_condattr_init attr, pthread_condattr_setpshared attr (shared_code s),
      pthread_condattr_setpshared attr pshared, pthread_cond_init cond attr] w =
    Some ([0, 0, EINVAL, 0], set_mutex (set_mutex w attr (shared_code s)) cond (if s then COND_SHARED_MASK else 0))"
  using assms by (cases s)
    (simp_all add: pthread_condattr_init_def pthread_condattr_setpshared_def pthread_cond_init_def shared_code_def
      field_defs cong: if_cong)

end
