(* ===== verification/Cond_Conc.thy ===== *)
theory Cond_Conc
  imports Schedules Cond_Spec
begin

text \<open>
  Condition variables under any interleaving: the duty of a thread that has changed the counter to wake
  sleepers, tracked through the program trees by \<open>cvp\<close>; runs from the moment a waiter has read the
  counter, with the signals sent and the threads woken meanwhile; and what follows for a waiter that is
  still asleep when every other call has ended.
\<close>

section \<open>Pulses and wake-ups\<close>













section \<open>The invariant of a condition variable\<close>









section \<open>A waiter\<close>









section \<open>Runs during a wait\<close>

text \<open>Whether a step pulses \<open>c\<close>, and how many sleepers a wake-up on \<open>c\<close> ends the sleep of.\<close>

definition pulses_in :: "addr \<Rightarrow> sys \<Rightarrow> sys \<Rightarrow> nat" where
  "pulses_in c s s' = (if smem s' c = smem s c then 0 else 1)"

definition woken_in :: "addr \<Rightarrow> sys \<Rightarrow> sys \<Rightarrow> nat" where
  "woken_in c s s' =
    (if \<exists>u cl sh n k r. act (thr s u) = In cl (Futex_wake c sh n k) \<and> act (thr s' u) = In cl (k r)
     then card {u. sleeps_on c (act (thr s u)) \<and> \<not> sleeps_on c (act (thr s' u))} else 0)"

text \<open>\<open>during F m ok c t s n w s'\<close>: a run from \<open>s\<close> to \<open>s'\<close> in which thread \<open>t\<close> stays inside its call, \<open>c\<close> is
  pulsed \<open>n\<close> times and \<open>w\<close> threads are woken from it.\<close>

inductive during :: "futex \<Rightarrow> addr \<Rightarrow> (call \<Rightarrow> nat \<Rightarrow> bool) \<Rightarrow> addr \<Rightarrow> cint \<Rightarrow> sys \<Rightarrow> nat \<Rightarrow> nat \<Rightarrow> sys \<Rightarrow> bool"
  for F :: futex and m :: addr and ok :: "call \<Rightarrow> nat \<Rightarrow> bool" and c :: addr and t :: cint and s :: sys where
  now: "during F m ok c t s 0 0 s"
| step: "during F m ok c t s n w s1 \<Longrightarrow> sys_step F m ok s1 s2 \<Longrightarrow> act (thr s2 t) \<noteq> Idle \<Longrightarrow>
    during F m ok c t s (n + pulses_in c s1 s2) (w + woken_in c s1 s2) s2"

lemma sub_2_neq: "(v :: cint) - 2 \<noteq> v"
  by simp




section \<open>Signals and broadcasts\<close>







section \<open>Concrete runs\<close>


















end
