(* ===== verification/Barriers.thy ===== *)
theory Barriers
  imports Schedules
begin

text \<open>
  Where the calls of \<open>ANDROID_MEMBAR_FULL\<close> stand in the lock and the unlock functions. The atomic operations of
  \<^verbatim>\<open>bionic_atomic_arm.h\<close> order nothing but the word they work on; the predicate \<open>fenced\<close> says that a program has a
  barrier after it has taken the mutex and before it releases it. All loops and entry points of \<^verbatim>\<open>pthread.c\<close> are
  fenced.
\<close>

section \<open>Barriers in a program\<close>

text \<open>
  \<open>fenced V m p e pe fe\<close>: the program puts a barrier between taking the mutex and its end (\<open>pe\<close>: the barrier is
  pending; \<open>e\<close>: it may still be at the end), and releases the mutex only after a barrier (\<open>fe\<close>: there was one
  since the mutex was taken). \<open>V\<close> are the values the mutex word can have.
\<close>

definition after_replace :: "(bool \<Rightarrow> bool \<Rightarrow> bool) \<Rightarrow> cint \<Rightarrow> cint \<Rightarrow> bool \<Rightarrow> bool \<Rightarrow> bool" where
  "after_replace K v v' pe fe =
    (if \<not> locked v \<and> locked v' then K True False else (locked v \<and> \<not> locked v' \<longrightarrow> fe) \<and> K pe fe)"

text \<open>The one loop that takes the mutex and leaves the barrier to the code after it.\<close>

fun bare :: "label \<Rightarrow> bool" where
  "bare (L_normal_lock a sh) = True"
| "bare l = False"

primrec fenced :: "(cint \<Rightarrow> bool) \<Rightarrow> addr \<Rightarrow> prog \<Rightarrow> bool \<Rightarrow> bool \<Rightarrow> bool \<Rightarrow> bool" where
  "fenced V m (Return r) e pe fe = (pe \<longrightarrow> e)"
| "fenced V m (Load a k) e pe fe = (\<forall>v. (a = m \<longrightarrow> V v) \<longrightarrow> fenced V m (k v) e pe fe)"
| "fenced V m (Store a v p) e pe fe = ((a = m \<longrightarrow> fe \<and> \<not> locked v) \<and> fenced V m p e pe fe)"
| "fenced V m (Cmpxchg old new a k) e pe fe = (fenced V m (k 1) e pe fe \<and>
    (if a = m then V old \<longrightarrow> after_replace (fenced V m (k 0) e) old new pe fe else fenced V m (k 0) e pe fe))"
| "fenced V m (Swap new a k) e pe fe =
    (\<forall>v. if a = m then V v \<longrightarrow> after_replace (fenced V m (k v) e) v new pe fe else fenced V m (k v) e pe fe)"
| "fenced V m (Atomic_dec a k) e pe fe =
    (\<forall>v. if a = m then V v \<and> locked v \<longrightarrow> after_replace (fenced V m (k v) e) v (v - 1) pe fe else fenced V m (k v) e pe fe)"
| "fenced V m (Futex_wait a sh v ts k) e pe fe = (\<forall>r. fenced V m (k r) e pe fe)"
| "fenced V m (Futex_wake a sh n k) e pe fe = (\<forall>r. fenced V m (k r) e pe fe)"
| "fenced V m (Clock_gettime c k) e pe fe = (\<forall>ts. fenced V m (k ts) e pe fe)"
| "fenced V m (Get_tid k) e pe fe = (\<forall>t. fenced V m (k t) e pe fe)"
| "fenced V m (Membar p) e pe fe = fenced V m p e False True"
| "fenced V m (Call l k) e pe fe = (\<not> pe \<and> (\<forall>r. fenced V m (k r) e (bare l) False))"

lemma after_replace_weaken:
  assumes "after_replace K v v' pe fe" "pe' \<le> pe" "fe \<le> fe'"
    and "\<And>pe fe pe' fe'. K pe fe \<Longrightarrow> pe' \<le> pe \<Longrightarrow> fe \<le> fe' \<Longrightarrow> K pe' fe'"
  shows "after_replace K v v' pe' fe'"
proof (cases "\<not> locked v \<and> locked v'")
  case True
  with assms(1) assms(4) [of True False True False] show ?thesis by (simp add: after_replace_def)
next
  case False
  with assms(1-3) assms(4) [of pe fe pe' fe'] show ?thesis by (auto simp: after_replace_def dest: le_boolD)
qed

lemma fenced_mono:
  "fenced V m p e pe fe \<Longrightarrow> pe' \<le> pe \<Longrightarrow> fe \<le> fe' \<Longrightarrow> fenced V m p e pe' fe'"
proof (induction p arbitrary: pe fe pe' fe')
  case (Cmpxchg old new a k)
  note rest = Cmpxchg.IH [OF rangeI] and flags = Cmpxchg.prems(2,3)
  have "fenced V m (k 1) e pe' fe'" using rest [OF _ flags] Cmpxchg.prems(1) by simp
  moreover have "after_replace (fenced V m (k 0) e) old new pe' fe'" if "a = m" "V old"
    by (rule after_replace_weaken [OF _ flags rest]) (use Cmpxchg.prems(1) that in simp)
  moreover have "fenced V m (k 0) e pe' fe'" if "a \<noteq> m" using rest [OF _ flags] Cmpxchg.prems(1) that by simp
  ultimately show ?case by simp
next
  case (Swap new a k)
  note rest = Swap.IH [OF rangeI] and flags = Swap.prems(2,3)
  have "after_replace (fenced V m (k v) e) v new pe' fe'" if "a = m" "V v" for v
    by (rule after_replace_weaken [OF _ flags rest]) (use Swap.prems(1) that in simp)
  moreover have "fenced V m (k v) e pe' fe'" if "a \<noteq> m" for v using rest [OF _ flags] Swap.prems(1) that by simp
  ultimately show ?case by simp
next
  case (Atomic_dec a k)
  note rest = Atomic_dec.IH [OF rangeI] and flags = Atomic_dec.prems(2,3)
  have "after_replace (fenced V m (k v) e) v (v - 1) pe' fe'" if "a = m" "V v" "locked v" for v
    by (rule after_replace_weaken [OF _ flags rest]) (use Atomic_dec.prems(1) that in simp)
  moreover have "fenced V m (k v) e pe' fe'" if "a \<noteq> m" for v using rest [OF _ flags] Atomic_dec.prems(1) that by simp
  ultimately show ?case by simp
next
  case (Load a k)
  show ?case using Load.IH [OF rangeI _ Load.prems(2,3)] Load.prems(1) by simp
next
  case (Futex_wait a sh v ts k)
  show ?case using Futex_wait.IH [OF rangeI _ Futex_wait.prems(2,3)] Futex_wait.prems(1) by simp
next
  case (Futex_wake a sh n k)
  show ?case using Futex_wake.IH [OF rangeI _ Futex_wake.prems(2,3)] Futex_wake.prems(1) by simp
next
  case (Clock_gettime c k)
  show ?case using Clock_gettime.IH [OF rangeI _ Clock_gettime.prems(2,3)] Clock_gettime.prems(1) by simp
next
  case (Get_tid k)
  show ?case using Get_tid.IH [OF rangeI _ Get_tid.prems(2,3)] Get_tid.prems(1) by simp
qed (auto dest: le_boolD)

lemma fenced_bind:
  assumes "fenced V m p e pe fe" "\<And>r. fenced V m (f r) e' e False"
  shows "fenced V m (bind p f) e' pe fe"
  using assms(1)
proof (induction p arbitrary: pe fe)
  case (Return r)
  then show ?case using fenced_mono [OF assms(2)] by auto
next
  case (Cmpxchg old new a k)
  then show ?case by (simp add: after_replace_def split: if_splits)
next
  case (Swap new a k)
  then show ?case by (simp add: after_replace_def split: if_splits)
next
  case (Atomic_dec a k)
  then show ?case by (auto simp: after_replace_def split: if_splits)
qed auto

section \<open>The barriers of the code\<close>

text \<open>Which words are locked, as the code builds them.\<close>

lemma locked_or: "locked (v OR w) \<longleftrightarrow> locked v \<or> locked w"
  by (simp add: locked_def and.commute [of _ MUTEX_STATE_MASK] bit.conj_disj_distrib or_eq_0_iff)

lemma locked_words [simp]:
  "\<not> locked (v AND MUTEX_TYPE_MASK)" "\<not> locked (v AND MUTEX_SHARED_MASK)" "\<not> locked MUTEX_STATE_BITS_UNLOCKED"
  "locked MUTEX_STATE_BITS_LOCKED_UNCONTENDED" "locked MUTEX_STATE_BITS_LOCKED_CONTENDED"
  by (simp_all add: locked_def field_masks and.assoc)

lemma locked_uint: "locked v \<longleftrightarrow> uint v mod 4 \<noteq> 0"
proof -
  have "uint (v AND 3) = uint v mod 4"
    using take_bit_eq_mask [of 2 "uint v"] by (simp add: uint_and take_bit_eq_mod mask_eq_exp_minus_1)
  then show ?thesis by (metis locked_def field_masks(1) uint_0_iff)
qed

lemma locked_counter [simp]: "locked (v + MUTEX_COUNTER_BITS_ONE) = locked v"
  by (simp add: locked_uint field_masks uint_word_ariths mod_mod_cancel)

lemma locked_counter_sub [simp]: "locked (v - MUTEX_COUNTER_BITS_ONE) = locked v"
  using locked_counter [of "v - MUTEX_COUNTER_BITS_ONE"] by simp

lemma locked_flip:
  "MUTEX_STATE_BITS_IS_LOCKED_UNCONTENDED v \<Longrightarrow> locked v"
  "MUTEX_STATE_BITS_IS_LOCKED_UNCONTENDED v \<Longrightarrow> locked (MUTEX_STATE_BITS_FLIP_CONTENTION v)"
  by (auto simp: MUTEX_STATE_BITS_IS_LOCKED_UNCONTENDED_def MUTEX_STATE_BITS_FLIP_CONTENTION_def locked_def field_masks
      bit.conj_xor_distrib2)

abbreviation words :: "mkind \<Rightarrow> bool \<Rightarrow> cint \<Rightarrow> bool" where
  "words k s v \<equiv> \<exists>g. mutex_inv k s g v"

lemma words_unlocked: "mutex_inv k s g v \<Longrightarrow> \<not> locked v \<Longrightarrow> v = free_bits k s"
  using ghost_locked_ok [of k s g v] by (cases g) auto

lemma fenced_loop:
  assumes "loop_pre k s live m t lo d b l"
  shows "fenced (words k s) m (loop_body l) (bare l) False False"
  using assms
  by (cases l) (auto simp: loop_defs after_replace_def locked_or locked_flip enc_simps fields_ok_def Let_def dest: words_unlocked split: prod.splits)

lemma fenced_mutex_call:
  assumes "locking c \<or> c = Unlock"
  shows "fenced V m (call_prog m c) False False False"
  using assms by (cases c) (auto simp: call_defs after_replace_def locked_or Let_def)

lemmas fenced_lock = fenced_mutex_call [where c = Lock, simplified]
lemmas fenced_unlock = fenced_mutex_call [where c = Unlock, simplified]

lemma fenced_wait:
  assumes "cond \<noteq> m"
  shows "fenced V m (cond_timedwait_relative cond m reltime) False False False"
proof -
  have "fenced V m (bind (pthread_mutex_lock m)
      (\<lambda>_. if status = - ETIMEDOUT then Return ETIMEDOUT else Return 0)) False False False" for status :: cint
    by (rule fenced_bind [OF fenced_lock]) auto
  then have "fenced V m (bind (pthread_mutex_unlock m) (\<lambda>_. Load cond (\<lambda>value.
      Futex_wait cond (COND_IS_SHARED value) v reltime (\<lambda>status. bind (pthread_mutex_lock m)
        (\<lambda>_. if status = - ETIMEDOUT then Return ETIMEDOUT else Return 0))))) False False False" for v
    by (intro fenced_bind [OF fenced_unlock]) simp
  with assms show ?thesis by (simp add: cond_timedwait_relative_def)
qed

lemma fenced_pulse: "cond \<noteq> m \<Longrightarrow> fenced V m (pthread_cond_pulse cond n) False False False"
  by (auto simp: pthread_cond_pulse_def Let_def)

lemma fenced_call:
  assumes "client_ok k live m c d"
  shows "fenced V m (call_prog m c) False False False"
proof (cases "locking c \<or> c = Unlock")
  case False
  then show ?thesis
    using assms fenced_wait [of _ m V] fenced_pulse [of _ m V]
    by (cases c) (auto simp: pthread_cond_wait_def cond_call_defs cond_timedwait_clock_def
        timespec_to_absolute_def Let_def split: prod.splits option.splits)
qed (use fenced_mutex_call in blast)

end
