(* ===== verification/Views.thy ===== *)
theory Views
  imports Prelude
begin

text \<open>
  Memory on a processor that reorders accesses, as far as the data goes that a synchronisation word protects: every
  thread has a view of the writes, and a read may return any write that is not older than those in view. The views
  grow by the accesses to the synchronisation word and by \<open>__bionic_memory_barrier\<close>. The atomic operations and the stores
  give the word one order of values for all threads; a plain load of it may return an old one, but never one older than
  what the same thread has read or written.
\<close>

section \<open>Views\<close>

text \<open>
  \<open>hist\<close> is the sequence of all writes to data, oldest first; a view is a set of positions in it. \<open>cur t\<close> are the
  writes thread \<open>t\<close> must not miss, \<open>acq t\<close> those it will not miss after its next barrier, \<open>rel t\<close> those it had in
  view at its last barrier, \<open>msg\<close> those that come with the synchronisation word. \<open>past\<close> are the values the word has had,
  oldest first, the present one excluded, each with the writes that came with it; \<open>seen t\<close> is the position of the value
  thread \<open>t\<close> has read or written last.
\<close>

record views =
  hist :: "(addr \<times> cint) list"
  cur :: "cint \<Rightarrow> nat set"
  acq :: "cint \<Rightarrow> nat set"
  rel :: "cint \<Rightarrow> nat set"
  msg :: "nat set"
  past :: "(cint \<times> nat set) list"
  seen :: "cint \<Rightarrow> nat"

definition fresh_views :: "'a \<Rightarrow> 'a views_scheme" where
  "fresh_views x = \<lparr>hist = [], cur = (\<lambda>_. {}), acq = (\<lambda>_. {}), rel = (\<lambda>_. {}), msg = {}, past = [], seen = (\<lambda>_. 0), \<dots> = x\<rparr>"

abbreviation complete :: "'a views_scheme \<Rightarrow> nat set \<Rightarrow> bool" where
  "complete w X \<equiv> {..<length (hist w)} \<subseteq> X"

text \<open>\<open>ANDROID_SMP\<close> is 1 because \<^verbatim>\<open>BoardConfig.mk\<close> sets \<^verbatim>\<open>TARGET_CPU_SMP\<close>, so the barrier is \<^verbatim>\<open>dmb ish\<close>.\<close>

definition ANDROID_SMP :: int where "ANDROID_SMP = 1"

definition dmb_ish :: "cint \<Rightarrow> 'a views_scheme \<Rightarrow> 'a views_scheme" where
  "dmb_ish t w = w\<lparr>cur := (cur w)(t := cur w t \<union> acq w t), rel := (rel w)(t := cur w t \<union> acq w t)\<rparr>"

definition bionic_memory_barrier :: "cint \<Rightarrow> 'a views_scheme \<Rightarrow> 'a views_scheme" where
  "bionic_memory_barrier t w = (if ANDROID_SMP = 1 then dmb_ish t w else w)"

definition ANDROID_MEMBAR_FULL :: "cint \<Rightarrow> 'a views_scheme \<Rightarrow> 'a views_scheme" where
  "ANDROID_MEMBAR_FULL = bionic_memory_barrier"

text \<open>Reading the synchronisation word, replacing it by an exclusive access, and storing to it.\<close>

definition read_word :: "cint \<Rightarrow> 'a views_scheme \<Rightarrow> 'a views_scheme" where
  "read_word t w = w\<lparr>acq := (acq w)(t := acq w t \<union> msg w)\<rparr>"

definition replace_word :: "cint \<Rightarrow> 'a views_scheme \<Rightarrow> 'a views_scheme" where
  "replace_word t w = (read_word t w)\<lparr>msg := msg w \<union> rel w t\<rparr>"

definition store_word :: "cint \<Rightarrow> 'a views_scheme \<Rightarrow> 'a views_scheme" where
  "store_word t w = w\<lparr>msg := rel w t\<rparr>"

text \<open>The order of the values: thread \<open>t\<close> has seen the present one, or has replaced the value \<open>v\<close>. Reading the value at position \<open>i\<close>.\<close>

definition newest :: "cint \<Rightarrow> 'a views_scheme \<Rightarrow> 'a views_scheme" where
  "newest t w = w\<lparr>seen := (seen w)(t := length (past w))\<rparr>"

definition push_word :: "cint \<Rightarrow> cint \<Rightarrow> 'a views_scheme \<Rightarrow> 'a views_scheme" where
  "push_word t v w = w\<lparr>past := past w @ [(v, msg w)], seen := (seen w)(t := Suc (length (past w)))\<rparr>"

definition read_past :: "cint \<Rightarrow> nat \<Rightarrow> 'a views_scheme \<Rightarrow> 'a views_scheme" where
  "read_past t i w = w\<lparr>acq := (acq w)(t := acq w t \<union> snd (past w ! i)), seen := (seen w)(t := i)\<rparr>"

abbreviation may_load :: "'a views_scheme \<Rightarrow> cint \<Rightarrow> nat \<Rightarrow> bool" where
  "may_load w t i \<equiv> seen w t \<le> i \<and> i < length (past w)"

lemmas order_defs = newest_def push_word_def read_past_def

lemmas word_defs = read_word_def replace_word_def store_word_def ANDROID_MEMBAR_FULL_def bionic_memory_barrier_def dmb_ish_def ANDROID_SMP_def

lemma order_views [simp]:
  "hist (newest t w) = hist w" "cur (newest t w) = cur w" "acq (newest t w) = acq w" "rel (newest t w) = rel w"
  "msg (newest t w) = msg w" "past (newest t w) = past w"
  "hist (push_word t v w) = hist w" "cur (push_word t v w) = cur w" "acq (push_word t v w) = acq w"
  "rel (push_word t v w) = rel w" "msg (push_word t v w) = msg w"
  "hist (read_past t i w) = hist w" "cur (read_past t i w) = cur w" "rel (read_past t i w) = rel w"
  "msg (read_past t i w) = msg w" "past (read_past t i w) = past w"
  by (simp_all add: order_defs)

lemma acq_read_past: "acq w u \<subseteq> acq (read_past t i w) u"
  by (auto simp: read_past_def)

section \<open>Data\<close>

definition write_data :: "cint \<Rightarrow> addr \<Rightarrow> cint \<Rightarrow> 'a views_scheme \<Rightarrow> 'a views_scheme" where
  "write_data t x v w = w\<lparr>hist := hist w @ [(x, v)], cur := (cur w)(t := insert (length (hist w)) (cur w t))\<rparr>"

text \<open>A read of \<open>x\<close> may return any write to \<open>x\<close> that is not older than one in view, and the initial 0 while none is in
  view.\<close>

definition may_see :: "'a views_scheme \<Rightarrow> cint \<Rightarrow> addr \<Rightarrow> nat \<Rightarrow> bool" where
  "may_see w t x i \<longleftrightarrow> i < length (hist w) \<and> fst (hist w ! i) = x \<and>
    (\<forall>j<length (hist w). j \<in> cur w t \<and> fst (hist w ! j) = x \<longrightarrow> j \<le> i)"

definition may_read :: "'a views_scheme \<Rightarrow> cint \<Rightarrow> addr \<Rightarrow> cint \<Rightarrow> bool" where
  "may_read w t x v \<longleftrightarrow> (\<exists>i. may_see w t x i \<and> v = snd (hist w ! i)) \<or>
    (v = 0 \<and> (\<forall>j<length (hist w). j \<in> cur w t \<longrightarrow> fst (hist w ! j) \<noteq> x))"

definition last_value :: "(addr \<times> cint) list \<Rightarrow> addr \<Rightarrow> cint" where
  "last_value h x = (case map_of (rev h) x of None \<Rightarrow> 0 | Some v \<Rightarrow> v)"

text \<open>A thread that has read a write does not miss it later.\<close>

definition read_data :: "cint \<Rightarrow> nat \<Rightarrow> 'a views_scheme \<Rightarrow> 'a views_scheme" where
  "read_data t i w = w\<lparr>cur := (cur w)(t := insert i (cur w t))\<rparr>"

lemma last_value_snoc: "last_value (h @ [(y, v)]) x = (if x = y then v else last_value h x)"
  by (simp add: last_value_def)

lemma last_value_newest:
  assumes "i < length h" "fst (h ! i) = x" "\<And>j. j < length h \<Longrightarrow> fst (h ! j) = x \<Longrightarrow> j \<le> i"
  shows "last_value h x = snd (h ! i)"
  using assms
proof (induction h rule: rev_induct)
  case (snoc e h)
  obtain y v where e: "e = (y, v)" by (cases e)
  show ?case
  proof (cases "y = x")
    case True
    with snoc.prems(1) snoc.prems(3) [of "length h"] e have "i = length h" by simp
    with True e show ?thesis by (simp add: last_value_snoc)
  next
    case False
    with snoc.prems(1,2) e have i: "i < length h" by (cases "i = length h") auto
    with snoc.prems have "last_value h x = snd (h ! i)" by (intro snoc.IH) (auto simp: nth_append)
    with False i e show ?thesis by (simp add: last_value_snoc nth_append)
  qed
qed simp

lemma last_value_none: "\<forall>j<length h. fst (h ! j) \<noteq> x \<Longrightarrow> last_value h x = 0"
  by (auto simp: last_value_def in_set_conv_nth split: option.splits dest!: map_of_SomeD) force

lemma newest_exists:
  assumes "j < length h" "fst (h ! j) = x"
  obtains i where "i < length h" "fst (h ! i) = x" "\<And>j. j < length h \<Longrightarrow> fst (h ! j) = x \<Longrightarrow> j \<le> i"
proof -
  let ?S = "{j. j < length h \<and> fst (h ! j) = x}"
  have "finite ?S" "j \<in> ?S" using assms by auto
  then have "Max ?S \<in> ?S" "\<And>i. i \<in> ?S \<Longrightarrow> i \<le> Max ?S" using Max_in [of ?S] Max_ge [of ?S] by blast+
  then show thesis using that [of "Max ?S"] by simp
qed

text \<open>A complete view reads the last value and nothing else.\<close>

lemma complete_reads:
  assumes "complete w (cur w t)"
  shows "may_read w t x v \<longleftrightarrow> v = last_value (hist w) x"
proof (cases "\<exists>j<length (hist w). fst (hist w ! j) = x")
  case True
  then obtain i where i: "i < length (hist w)" "fst (hist w ! i) = x"
    "\<And>j. j < length (hist w) \<Longrightarrow> fst (hist w ! j) = x \<Longrightarrow> j \<le> i"
    using newest_exists by metis
  then have "may_see w t x i' \<longleftrightarrow> i' = i" for i'
    using assms by (auto simp: may_see_def subset_iff intro: antisym)
  moreover have "i \<in> cur w t" using i(1) assms by auto
  ultimately show ?thesis using i(1,2) last_value_newest [OF i] by (auto simp: may_read_def)
next
  case False
  with last_value_none [of "hist w" x] show ?thesis by (auto simp: may_read_def may_see_def)
qed

end
