(* ===== verification/Weak_Memory.thy ===== *)
theory Weak_Memory
  imports Barriers Views
begin

text \<open>
  Why the mutex protects data on a processor that reorders memory accesses: the machine of theory \<open>Interleave\<close> with
  the views of theory \<open>Views\<close>. What makes the data written under the lock visible to the next holder are the barriers
  (theory \<open>Barriers\<close>). A plain load of the mutex word may be stale as well: it returns any value the word has had since
  the thread last read or wrote it. The locale \<open>fenced_calls\<close> collects what the code has to satisfy.
\<close>

section \<open>The machine\<close>

record wsys = views +
  core :: sys

text \<open>What an access of thread \<open>t\<close> to the present word does to the views.\<close>

fun see :: "addr \<Rightarrow> cint \<Rightarrow> prog \<Rightarrow> wsys \<Rightarrow> wsys" where
  "see m t (Load a k) w = (if a = m then read_word t (newest t w) else w)"
| "see m t (Store a v p) w = (if a = m then store_word t (push_word t (smem (core w) m) w) else w)"
| "see m t (Cmpxchg old new a k) w =
    (if a = m then if smem (core w) a = old then replace_word t (push_word t (smem (core w) m) w)
       else read_word t (newest t w)
     else w)"
| "see m t (Swap new a k) w = (if a = m then replace_word t (push_word t (smem (core w) m) w) else w)"
| "see m t (Atomic_dec a k) w = (if a = m then replace_word t (push_word t (smem (core w) m) w) else w)"
| "see m t (Membar p) w = ANDROID_MEMBAR_FULL t w"
| "see m t p w = w"

text \<open>The accesses that work with a stale word \<open>v\<close>: loads, and compare-and-swaps that fail on it (they return without the
  exclusive store, so nothing makes their load the present word).\<close>

fun stale :: "addr \<Rightarrow> cint \<Rightarrow> prog \<Rightarrow> prog option" where
  "stale m v (Load a k) = (if a = m then Some (k v) else None)"
| "stale m v (Cmpxchg old new a k) = (if a = m \<and> v \<noteq> old then Some (k 1) else None)"
| "stale m v p = None"

text \<open>The steps: those of the threads inside the calls, with the present word or a stale one; loads of the condition
  variables, which may return anything; writes of data by a holder outside the calls, and reads of data.\<close>

inductive weak_step :: "futex \<Rightarrow> addr \<Rightarrow> (call \<Rightarrow> nat \<Rightarrow> bool) \<Rightarrow> wsys \<Rightarrow> wsys \<Rightarrow> bool"
  for F :: futex and m :: addr and ok :: "call \<Rightarrow> nat \<Rightarrow> bool" where
  access: "act (thr (core w) t) = In c p \<Longrightarrow> access t (smem (core w)) p = Some (M, p') \<Longrightarrow>
    weak_step F m ok w ((see m t p w)\<lparr>core := (set_act (core w) t (In c p'))\<lparr>smem := M\<rparr>\<rparr>)"
| stale: "act (thr (core w) t) = In c p \<Longrightarrow> may_load w t i \<Longrightarrow>
    stale m (fst (past w ! i)) p = Some p' \<Longrightarrow>
    weak_step F m ok w ((read_past t i w)\<lparr>core := set_act (core w) t (In c p')\<rparr>)"
| other_load: "act (thr (core w) t) = In c (Load a k) \<Longrightarrow> a \<noteq> m \<Longrightarrow>
    weak_step F m ok w (w\<lparr>core := set_act (core w) t (In c (k v))\<rparr>)"
| quiet: "quiet_step F m ok t (core w) s' \<Longrightarrow> weak_step F m ok w (w\<lparr>core := s'\<rparr>)"
| data_write: "act (thr (core w) t) = Idle \<Longrightarrow> 0 < depth (thr (core w) t) \<Longrightarrow>
    weak_step F m ok w (write_data t x v w)"
| data_read: "act (thr (core w) t) = Idle \<Longrightarrow> may_see w t x i \<Longrightarrow>
    weak_step F m ok w (read_data t i w)"

inductive weak_reachable :: "futex \<Rightarrow> addr \<Rightarrow> (call \<Rightarrow> nat \<Rightarrow> bool) \<Rightarrow> wsys \<Rightarrow> wsys \<Rightarrow> bool"
  for F :: futex and m :: addr and ok :: "call \<Rightarrow> nat \<Rightarrow> bool" and w0 :: wsys where
  start: "weak_reachable F m ok w0 w0"
| step: "weak_reachable F m ok w0 w \<Longrightarrow> weak_step F m ok w w' \<Longrightarrow> weak_reachable F m ok w0 w'"

definition fresh_weak :: "sys \<Rightarrow> wsys" where
  "fresh_weak s = fresh_views \<lparr>core = s\<rparr>"

section \<open>The invariant of the views\<close>

text \<open>What a holder of the mutex has in view, by the barriers it has passed.\<close>

definition knows :: "wsys \<Rightarrow> cint \<Rightarrow> bool \<Rightarrow> bool \<Rightarrow> bool" where
  "knows w t pe fe \<longleftrightarrow> complete w (if pe then cur w t \<union> acq w t else cur w t) \<and> (fe \<longrightarrow> complete w (rel w t))"

fun act_fenced :: "(cint \<Rightarrow> bool) \<Rightarrow> addr \<Rightarrow> activity \<Rightarrow> bool \<Rightarrow> bool \<Rightarrow> bool" where
  "act_fenced V m Idle pe fe = (\<not> pe)"
| "act_fenced V m (In c p) pe fe = fenced V m p False pe fe"
| "act_fenced V m (Asleep c key k) pe fe = (\<forall>r. fenced V m (k r) False pe fe)"

definition act_views :: "(cint \<Rightarrow> bool) \<Rightarrow> addr \<Rightarrow> wsys \<Rightarrow> cint \<Rightarrow> bool \<Rightarrow> activity \<Rightarrow> bool" where
  "act_views V m w t holder x \<longleftrightarrow> (\<exists>pe fe. (holder \<longrightarrow> knows w t pe fe) \<and> act_fenced V m x pe fe)"

lemma act_views_step:
  "act_views V m w t h x \<Longrightarrow> (\<And>pe fe. act_fenced V m x pe fe \<Longrightarrow> act_fenced V m y pe fe) \<Longrightarrow> act_views V m w t h y"
  unfolding act_views_def by blast

lemma act_views_mono:
  "act_views V m w t h x \<Longrightarrow> (\<And>pe fe. knows w t pe fe \<Longrightarrow> knows w' t pe fe) \<Longrightarrow> act_views V m w' t h x"
  unfolding act_views_def by metis

definition view_inv :: "(cint \<Rightarrow> bool) \<Rightarrow> addr \<Rightarrow> ghost \<Rightarrow> wsys \<Rightarrow> bool" where
  "view_inv V m g w \<longleftrightarrow> (\<not> locked (smem (core w) m) \<longrightarrow> complete w (msg w)) \<and>
    (\<forall>t. act_views V m w t (0 < gdepth g t) (act (thr (core w) t)))"

lemma knows_views [simp]: "knows (newest t w) u pe fe = knows w u pe fe" "knows (push_word t v w) u pe fe = knows w u pe fe"
  by (simp_all add: knows_def)

lemma knows_word:
  "knows w t pe fe \<Longrightarrow> knows (read_word t w) t pe fe" "knows w t pe fe \<Longrightarrow> knows (replace_word t w) t pe fe"
  "knows w t pe fe \<Longrightarrow> knows (store_word t w) t pe fe"
  by (auto simp: knows_def word_defs split: if_splits)

lemma knows_barrier: "knows w t pe fe \<Longrightarrow> knows (ANDROID_MEMBAR_FULL t w) t False True"
  by (auto simp: knows_def word_defs split: if_splits)

lemma msg_views [simp]: "msg (ANDROID_MEMBAR_FULL t w) = msg w" "msg (read_word t w) = msg w"
  by (simp_all add: word_defs)

lemma knows_acquire: "complete w (msg w) \<Longrightarrow> knows (replace_word t w) t True False"
  by (auto simp: knows_def word_defs)

lemma see_other:
  assumes "u \<noteq> t"
  shows "cur (see m t p w) u = cur w u" "acq (see m t p w) u = acq w u" "rel (see m t p w) u = rel w u"
  using assms by (cases p; simp add: word_defs)+

lemma see_hist [simp]: "hist (see m t p w) = hist w"
  by (cases p) (simp_all add: word_defs)

lemma act_views_cong:
  assumes "hist w' = hist w" "cur w' t = cur w t" "acq w' t = acq w t" "rel w' t = rel w t"
  shows "act_views V m w' t h x = act_views V m w t h x"
  using assms by (simp add: act_views_def knows_def)

text \<open>For every past word there is an owner it belongs to, and a thread that may still read the word has held the mutex as
  often then as it does now: nobody else changes its depth.\<close>

definition past_inv :: "proto \<Rightarrow> ghost \<Rightarrow> wsys \<Rightarrow> bool" where
  "past_inv P g w \<longleftrightarrow> (\<forall>i<length (past w). \<exists>h. p_inv P h (fst (past w ! i)) \<and>
    (\<forall>t. seen w t \<le> i \<longrightarrow> gdepth h t = gdepth g t))"

lemma past_inv_cong: "past w' = past w \<Longrightarrow> seen w' = seen w \<Longrightarrow> past_inv P g w' = past_inv P g w"
  by (simp add: past_inv_def)

lemma past_inv_seen:
  assumes "past_inv P g w" "past w' = past w" "\<And>u. seen w u \<le> seen w' u \<or> length (past w) \<le> seen w' u"
  shows "past_inv P g w'"
  using assms unfolding past_inv_def by (metis le_trans not_le)

lemma past_inv_push:
  assumes "past_inv P g w" "p_inv P g (smem (core w) m)" "\<And>u. u \<noteq> t \<Longrightarrow> gdepth g' u = gdepth g u"
    and "past w' = past (push_word t (smem (core w) m) w)" "seen w' = seen (push_word t (smem (core w) m) w)"
  shows "past_inv P g' w'"
  unfolding past_inv_def
proof (intro allI impI)
  fix i assume i: "i < length (past w')"
  show "\<exists>h. p_inv P h (fst (past w' ! i)) \<and> (\<forall>u. seen w' u \<le> i \<longrightarrow> gdepth h u = gdepth g' u)"
  proof (cases "i = length (past w)")
    case True
    with assms show ?thesis by (intro exI [of _ g]) (auto simp: push_word_def)
  next
    case False
    with i assms(4) have "i < length (past w)" by (simp add: push_word_def)
    with assms(1) obtain h where "p_inv P h (fst (past w ! i))" "\<forall>u. seen w u \<le> i \<longrightarrow> gdepth h u = gdepth g u"
      unfolding past_inv_def by blast
    with assms(3,4,5) \<open>i < length (past w)\<close> show ?thesis
      by (intro exI [of _ h]) (auto simp: push_word_def nth_append)
  qed
qed

lemma see_past:
  assumes "access t (smem (core w)) p = Some (M, p')"
  obtains (keep) "M m = smem (core w) m" "past (see m t p w) = past w"
      "\<And>u. seen w u \<le> seen (see m t p w) u \<or> length (past w) \<le> seen (see m t p w) u"
    | (push) "past (see m t p w) = past (push_word t (smem (core w) m) w)" "seen (see m t p w) = seen (push_word t (smem (core w) m) w)"
  using assms by (cases p) (force simp: word_defs order_defs split: if_splits)+

locale fenced_calls = verified_calls +
  fixes V :: "cint \<Rightarrow> bool"
  assumes words: "p_inv P g v \<Longrightarrow> V v"
    and fenced_loops: "p_pre P t lo d b l \<Longrightarrow> fenced V m (loop_body l) (bare l) False False"
    and fenced_calls: "ok c d \<Longrightarrow> fenced V m (call_prog m c) False False False"
begin

text \<open>Who holds the mutex after an access.\<close>

lemma holders:
  assumes "p_inv P g v" "p_inv P g' v'" "g' = next_ghost t g v v'" "\<forall>u. u \<noteq> t \<longrightarrow> gdepth g' u = gdepth g u"
  shows "0 < gdepth g t \<Longrightarrow> locked v" "0 < gdepth g' t \<Longrightarrow> locked v'" "locked v \<Longrightarrow> \<not> locked v' \<Longrightarrow> 0 < gdepth g t"
    "locked v \<Longrightarrow> 0 < gdepth g' t \<Longrightarrow> 0 < gdepth g t"
proof -
  note g = ghost_locked [OF assms(1)] ghost_locked [OF assms(2)]
  show "0 < gdepth g t \<Longrightarrow> locked v" "0 < gdepth g' t \<Longrightarrow> locked v'" using g by (auto split: option.splits)
  show "0 < gdepth g t" if "locked v" "\<not> locked v'"
  proof -
    from that g obtain u d where u: "g = Some (u, d)" "0 < d" by (auto split: option.splits)
    moreover from that assms(3) have "g' = None" by (simp add: next_ghost_def)
    ultimately show ?thesis using assms(4) by (cases "u = t") auto
  qed
  show "0 < gdepth g t" if "locked v" "0 < gdepth g' t"
    using that g assms(3) by (auto simp: next_ghost_def split: option.splits if_splits)
qed

text \<open>A replacement of the word keeps what the views promise.\<close>

lemma replace_views:
  assumes "after_replace K v v' pe fe" "\<not> locked v \<Longrightarrow> complete w (msg w)" "0 < gdepth g t \<Longrightarrow> knows w t pe fe"
    and g: "p_inv P g v" "p_inv P g' v'" "g' = next_ghost t g v v'" "\<forall>u. u \<noteq> t \<longrightarrow> gdepth g' u = gdepth g u"
  shows "\<exists>pe fe. (0 < gdepth g' t \<longrightarrow> knows (replace_word t w) t pe fe) \<and> K pe fe"
    "\<not> locked v' \<Longrightarrow> complete (replace_word t w) (msg (replace_word t w))"
proof -
  note h = holders [OF g]
  show "\<exists>pe fe. (0 < gdepth g' t \<longrightarrow> knows (replace_word t w) t pe fe) \<and> K pe fe"
  proof (cases "\<not> locked v \<and> locked v'")
    case True
    then have "K True False" using assms(1) by (simp add: after_replace_def)
    with True assms(2) knows_acquire show ?thesis by blast
  next
    case False
    then have "K pe fe" using assms(1) by (auto simp: after_replace_def split: if_splits)
    with False assms(3) h(2,4) knows_word(2) [of w t pe fe] show ?thesis by (intro exI [of _ pe] exI [of _ fe]) auto
  qed
  assume v': "\<not> locked v'"
  show "complete (replace_word t w) (msg (replace_word t w))"
  proof (cases "locked v")
    case True
    with v' assms(1,3) h(3) have "complete w (rel w t)" by (auto simp: after_replace_def knows_def)
    then show ?thesis by (auto simp: word_defs)
  next
    case False
    with assms(2) show ?thesis by (auto simp: word_defs)
  qed
qed

lemma access_own_views:
  assumes inv: "sys_inv P m g B (core w)" "view_inv V m g w" and act: "act (thr (core w) t) = In c p"
    and acc: "access t (smem (core w)) p = Some (M, p')" and g': "g' = next_ghost t g (smem (core w) m) (M m)"
  shows "act_views V m (see m t p w) t (0 < gdepth g' t) (In c p') \<and>
    (\<not> locked (M m) \<longrightarrow> complete (see m t p w) (msg (see m t p w)))"
proof -
  note t = inv_In [OF inv(1) act]
  have g: "p_inv P g' (M m)" "\<forall>u. u \<noteq> t \<longrightarrow> gdepth g' u = gdepth g u"
    by (rule access_sound [OF t(2,3) acc t(1,4)]; simp add: g')+
  note h = holders [OF t(3) g(1) g' g(2)]
  have "act_views V m w t (0 < gdepth g t) (In c p)" using inv(2) act by (simp add: view_inv_def flip: act)
  then obtain pe fe where p: "0 < gdepth g t \<Longrightarrow> knows w t pe fe" "fenced V m p False pe fe"
    by (auto simp: act_views_def)
  have free: "\<not> locked (smem (core w) m) \<Longrightarrow> complete w (msg w)" using inv(2) by (simp add: view_inv_def)
  have V: "V (smem (core w) m)" by (rule words [OF t(3)])
  have keep: ?thesis if "M m = smem (core w) m" "knows w t pe fe \<Longrightarrow> knows (see m t p w) t pe1 fe1"
    "fenced V m p' False pe1 fe1" "msg (see m t p w) = msg w" for pe1 fe1
  proof -
    from that(1) have "g' = g" using next_ghost_same [OF t(3)] by (simp add: g')
    with that p(1) free show ?thesis unfolding act_views_def
      by (intro conjI exI [of _ pe1] exI [of _ fe1]) auto
  qed
  have swap: ?thesis if "see m t p w = replace_word t (push_word t (smem (core w) m) w)"
    "after_replace (fenced V m p' False) (smem (core w) m) (M m) pe fe"
    using replace_views [where w = "push_word t (smem (core w) m) w", OF that(2) _ _ t(3) g(1) g' g(2)] free p(1) that(1)
    by (simp add: act_views_def)
  show ?thesis
  proof (cases p)
    case (Call l k)
    then have "fenced V m p' False False False"
      using p(2) t(2) acc by (auto intro!: fenced_bind [OF fenced_loops])
    with Call acc p(2) show ?thesis by (intro keep [of False False]) (auto simp: knows_def)
  next
    case (Store a v q)
    show ?thesis
    proof (cases "a = m")
      case True
      then have "0 < gdepth g t" "fe" "\<not> locked (M m)" using t(2) p(2) Store acc by auto
      then have "complete w (rel w t)" "\<not> 0 < gdepth g' t" using p(1) h(2) by (auto simp: knows_def)
      moreover have "fenced V m p' False pe fe" using p(2) Store acc by auto
      ultimately show ?thesis using True Store unfolding act_views_def
        by (intro conjI exI [of _ pe] exI [of _ fe]) (simp_all add: store_word_def)
    qed (rule keep [of pe fe]; use Store acc p(2) in auto)
  next
    case (Cmpxchg old new a k)
    consider "a = m" "smem (core w) m = old" | "a = m" "smem (core w) m \<noteq> old" | "a \<noteq> m" by blast
    then show ?thesis
    proof cases
      case 1
      with Cmpxchg acc p(2) V show ?thesis by (intro swap) auto
    next
      case 2
      with Cmpxchg acc p(2) show ?thesis by (intro keep [of pe fe]) (auto intro: knows_word)
    qed (rule keep [of pe fe]; use Cmpxchg acc p(2) in \<open>auto split: if_splits\<close>)
  next
    case (Swap new a k)
    show ?thesis
    proof (cases "a = m")
      case True
      with Swap acc p(2) V show ?thesis by (intro swap) auto
    qed (rule keep [of pe fe]; use Swap acc p(2) in auto)
  next
    case (Atomic_dec a k)
    show ?thesis
    proof (cases "a = m")
      case True
      with Atomic_dec acc p(2) V t(2) h(1) show ?thesis by (intro swap) auto
    qed (rule keep [of pe fe]; use Atomic_dec acc p(2) in auto)
  next
    case (Load a k)
    with acc p(2) V show ?thesis by (intro keep [of pe fe]) (auto intro: knows_word)
  next
    case (Membar q)
    with acc p(2) show ?thesis by (intro keep [of False True]) (auto intro: knows_barrier)
  next
    case (Get_tid k)
    with acc p(2) show ?thesis by (intro keep [of pe fe]) auto
  qed (use acc in simp_all)
qed

lemma access_views:
  assumes inv: "sys_inv P m g B (core w)" "view_inv V m g w" and act: "act (thr (core w) t) = In c p"
    and acc: "access t (smem (core w)) p = Some (M, p')"
  shows "view_inv V m (next_ghost t g (smem (core w) m) (M m))
    ((see m t p w)\<lparr>core := (set_act (core w) t (In c p'))\<lparr>smem := M\<rparr>\<rparr>)" (is "view_inv V m ?g ?w")
proof -
  note other = access_others(1) [OF inv(1) act acc]
  note own = access_own_views [OF assms refl]
  have "act_views V m ?w u (0 < gdepth ?g u) (act (thr (core ?w) u))" for u
  proof (cases "u = t")
    case True
    have "act_views V m ?w t h x = act_views V m (see m t p w) t h x" for h x by (rule act_views_cong) simp_all
    with own True show ?thesis by (simp add: set_act_def)
  next
    case False
    have "act_views V m ?w u h x = act_views V m w u h x" for h x
      by (rule act_views_cong) (simp_all add: see_other [OF False])
    with inv(2) other [OF False] False show ?thesis by (simp add: view_inv_def set_act_def)
  qed
  with own show ?thesis by (simp add: view_inv_def)
qed

lemma access_past:
  assumes inv: "sys_inv P m g B (core w)" "past_inv P g w" and act: "act (thr (core w) t) = In c p"
    and acc: "access t (smem (core w)) p = Some (M, p')"
  shows "past_inv P (next_ghost t g (smem (core w) m) (M m)) (see m t p w)"
  using acc
proof (cases rule: see_past [where m = m])
  case keep
  with next_ghost_same inv_In(3) [OF inv(1) act] past_inv_seen [OF inv(2)] show ?thesis by simp
next
  case push
  with access_others(1) [OF inv(1) act acc] inv_In(3) [OF inv(1) act] show ?thesis
    by (intro past_inv_push [OF inv(2)])
qed

text \<open>A stale word is one the logic has accounted for: the thread could have read it before the others went on.\<close>

lemma stale_sound:
  assumes "wp P m t lo p Q (gdepth g t) b" "past_inv P g w" "may_load w t i"
    and "stale m (fst (past w ! i)) p = Some p'"
  shows "wp P m t lo p' Q (gdepth g t) b" "fenced V m p e pe fe \<Longrightarrow> fenced V m p' e pe fe"
proof -
  obtain h where h: "p_inv P h (fst (past w ! i))" "gdepth h t = gdepth g t"
    using assms(2,3) unfolding past_inv_def by blast
  with assms(1,4) show "wp P m t lo p' Q (gdepth g t) b" by (cases p) (auto split: if_splits)
  show "fenced V m p e pe fe \<Longrightarrow> fenced V m p' e pe fe"
    using h(1) assms(4) words by (cases p) (auto split: if_splits)
qed

text \<open>A step without access keeps all views.\<close>

lemma quiet_views:
  assumes "quiet_step F m ok u s s'" "act_views V m w t h (act (thr s t))"
  shows "act_views V m w t h (act (thr s' t))"
  using assms(2)
proof (rule act_views_step)
  fix pe fe assume f: "act_fenced V m (act (thr s t)) pe fe"
  from assms(1) show "act_fenced V m (act (thr s' t)) pe fe"
  proof cases
    case (call c)
    with f fenced_mono [OF fenced_calls [OF call(4)], of pe fe] show ?thesis by (cases "u = t") auto
  next
    case (wake c a sh n k W s1 r)
    with f show ?thesis by (cases "u = t"; cases "act (thr s t)") auto
  qed (use f in auto)
qed

text \<open>A step of one thread that keeps the memory and all views but what the thread acquires.\<close>

lemma inside_views:
  assumes "view_inv V m g w" "act (thr (core w) t) = In c p" "core w' = set_act (core w) t (In c p')"
    and "\<And>pe fe. fenced V m p False pe fe \<Longrightarrow> fenced V m p' False pe fe"
    and "hist w' = hist w" "cur w' = cur w" "rel w' = rel w" "msg w' = msg w" "\<And>u. acq w u \<subseteq> acq w' u"
  shows "view_inv V m g w'"
proof -
  have mono: "knows w u pe fe \<Longrightarrow> knows w' u pe fe" for u pe fe
    using assms(5-7) assms(9) [of u] by (cases pe) (auto simp: knows_def)
  have "act_views V m w' u (0 < gdepth g u) (act (thr (core w') u))" for u
  proof -
    have "act_views V m w u (0 < gdepth g u) (act (thr (core w) u))" using assms(1) by (simp add: view_inv_def)
    then have "act_views V m w u (0 < gdepth g u) (act (thr (core w') u))"
      by (rule act_views_step) (use assms(2-4) in \<open>auto split: if_splits\<close>)
    then show ?thesis by (rule act_views_mono) (rule mono)
  qed
  with assms(1,3,5,8) show ?thesis by (simp add: view_inv_def)
qed

lemma weak_preserves:
  assumes "weak_step F m ok w w'" "sys_inv P m g B (core w)" "view_inv V m g w" "past_inv P g w"
  shows "\<exists>g B. sys_inv P m g B (core w') \<and> view_inv V m g w' \<and> past_inv P g w'"
  using assms(1)
proof cases
  case (access t c p M p')
  from access_past [OF assms(2,4) access(2,3)]
  have "past_inv P (next_ghost t g (smem (core w) m) (M m)) w'" by (simp add: past_inv_def access(1))
  with step_access [OF assms(2) access(2,3)] access_views [OF assms(2,3) access(2,3)] show ?thesis
    unfolding access(1) by auto
next
  case (stale t c p i p')
  note t = inv_In [OF assms(2) stale(2)]
  note sound = stale_sound [OF t(2) assms(4) stale(3,4)]
  from step_inside [OF assms(2) _ t(1) sound(1)] stale(1,2) obtain B' where "sys_inv P m g B' (core w')"
    by auto
  moreover have "view_inv V m g w'"
    by (rule inside_views [OF assms(3) stale(2) _ sound(2)]) (simp_all add: stale(1) acq_read_past)
  moreover have "past_inv P g w'"
    using assms(4) stale(3) by (elim past_inv_seen) (simp_all add: stale(1) read_past_def)
  ultimately show ?thesis by blast
next
  case (other_load t c a k v)
  note t = inv_In [OF assms(2) other_load(2)]
  from t(2) other_load(3) step_inside [OF assms(2) _ t(1)] other_load(1,2) obtain B' where
    "sys_inv P m g B' (core w')" by fastforce
  moreover have "view_inv V m g w'"
    by (rule inside_views [OF assms(3) other_load(2), where p' = "k v"]) (use other_load(1,3) in auto)
  moreover have "past_inv P g w'" using assms(4) by (simp add: past_inv_def other_load(1))
  ultimately show ?thesis by blast
next
  case (quiet t s')
  from quiet_preserves [OF quiet(2) assms(2)] obtain B' where "sys_inv P m g B' s'" by blast
  moreover have "smem s' = smem (core w)" using quiet(2) by cases simp_all
  moreover have "act_views V m w' t h x = act_views V m w t h x" for t h x
    by (rule act_views_cong) (simp_all add: quiet(1))
  ultimately show ?thesis
    using assms(3,4) quiet_views [OF quiet(2), of w] by (auto simp: view_inv_def past_inv_def quiet(1))
next
  case (data_write t x v)
  from assms(2) have "p_inv P g (smem (core w) m)" "thread_inv P m t (gdepth g t) (B t) (thr (core w) t)"
    by (simp_all add: sys_inv_def)
  with data_write(2,3) have t: "0 < gdepth g t" "locked (smem (core w) m)"
    using ghost_locked [of g "smem (core w) m"] by (auto simp: thread_inv_def split: option.splits)
  have old: "act_views V m w u (0 < gdepth g u) (act (thr (core w) u))" for u
    using assms(3) by (simp add: view_inv_def)
  have "act_views V m w' u (0 < gdepth g u) (act (thr (core w) u))" for u
  proof (cases "u = t")
    case True
    with old [of t] t(1) data_write(2) show ?thesis
      by (auto simp: act_views_def knows_def data_write(1) write_data_def lessThan_Suc intro!: exI [of _ False])
  next
    case False
    with t(1) have "gdepth g u = 0" by (cases g) (auto split: if_splits)
    with old [of u] show ?thesis by (simp add: act_views_def)
  qed
  with t(2) have "view_inv V m g w'" by (simp add: view_inv_def data_write(1) write_data_def)
  with assms(2,4) show ?thesis by (auto simp: past_inv_def data_write(1) write_data_def)
next
  case (data_read t x i)
  have "knows w' u pe fe" if "knows w u pe fe" for u pe fe
    using that by (auto simp: knows_def data_read(1) read_data_def)
  then have "act_views V m w' u h y" if "act_views V m w u h y" for u h y
    using that by (rule act_views_mono [rotated])
  with assms(2-4) show ?thesis by (auto simp: view_inv_def past_inv_def data_read(1) read_data_def)
qed

lemma weak_reachable_inv:
  assumes "weak_reachable F m ok (fresh_weak (fresh_sys m v)) w" "p_inv P None v"
  shows "\<exists>g B. sys_inv P m g B (core w) \<and> view_inv V m g w \<and> past_inv P g w"
  using assms(1)
proof (induction rule: weak_reachable.induct)
  case start
  have "view_inv V m None (fresh_weak (fresh_sys m v))"
    by (auto simp: view_inv_def act_views_def fresh_weak_def fresh_views_def fresh_sys_def)
  with fresh_inv [OF assms(2)] show ?case by (auto simp: fresh_weak_def fresh_views_def past_inv_def)
qed (blast dest: weak_preserves)

text \<open>The view of a holder outside the calls is complete.\<close>

lemma holder_complete:
  assumes "weak_reachable F m ok (fresh_weak (fresh_sys m v)) w" "p_inv P None v"
    and "act (thr (core w) t) = Idle" "0 < depth (thr (core w) t)"
  shows "complete w (cur w t)"
proof -
  from weak_reachable_inv [OF assms(1,2)] obtain g B where
    inv: "sys_inv P m g B (core w)" "view_inv V m g w" by blast
  then have "thread_inv P m t (gdepth g t) (B t) (thr (core w) t)" by (simp add: sys_inv_def)
  with assms(3,4) have "0 < gdepth g t" by (simp add: thread_inv_def)
  moreover have "act_views V m w t (0 < gdepth g t) Idle" using inv(2) assms(3) by (simp add: view_inv_def flip: assms(3))
  ultimately show ?thesis by (auto simp: act_views_def knows_def)
qed

lemma weak_exclusion:
  assumes "weak_reachable F m ok (fresh_weak (fresh_sys m v)) w" "p_inv P None v"
    and "in_critical (thr (core w) t)" "in_critical (thr (core w) u)"
  shows "t = u"
  using weak_reachable_inv [OF assms(1,2)] assms(3,4) by (blast dest: inv_exclusion)

end

section \<open>What a holder reads\<close>

interpretation fenced: fenced_calls "mutex_proto k s False m" m F "client_ok k False m" "words k s" for k s m F
  by unfold_locales (auto simp: mutex_proto_def intro: fenced_call dest: fenced_loop)

text \<open>C3: the mutex makes data visible also on a processor that reorders memory accesses. Any number of threads call
  the functions of a fresh mutex of any kind and write data while they hold it; a read of data may return a
  stale value unless the barriers of the code exclude it, and so may a plain load of the mutex word. In every state reached, a thread that holds the mutex reads exactly the
  last value written to each address.\<close>

theorem holder_sees_all:
  assumes "weak_reachable F m (client_ok k False m) (fresh_weak (fresh_mutex m k s)) w"
    and "act (thr (core w) t) = Idle" "0 < depth (thr (core w) t)"
  shows "may_read w t x v \<longleftrightarrow> v = last_value (hist w) x"
  using fenced.holder_complete [OF assms(1) [unfolded fresh_mutex_free] _ assms(2,3), of s]
  by (intro complete_reads) simp

text \<open>C4: mutual exclusion also holds when the processor lets a thread read an old mutex word. Every plain load of the word, and every
  compare-and-swap that fails, may use any value the word has had since the thread last read or wrote it. In every state reached from a
  fresh mutex of any kind, however many threads call its functions, at most one thread is between its lock and
  its unlock.\<close>

theorem stale_loads_exclude:
  assumes "weak_reachable F m (client_ok k False m) (fresh_weak (fresh_mutex m k s)) w"
    and "in_critical (thr (core w) t)" "in_critical (thr (core w) u)"
  shows "t = u"
  using fenced.weak_exclusion [OF assms(1) [unfolded fresh_mutex_free] _ assms(2,3), of s] by simp

section \<open>Runs\<close>

datatype weak_event =
    Inside event               \<comment> \<open>a step of a thread inside a call\<close>
  | Stale cint nat             \<comment> \<open>a step with a past word\<close>
  | Write cint addr cint       \<comment> \<open>a holder writes data\<close>

fun weak_play1 :: "addr \<Rightarrow> (call \<Rightarrow> nat \<Rightarrow> bool) \<Rightarrow> weak_event \<Rightarrow> wsys \<Rightarrow> wsys option" where
  "weak_play1 m ok (Inside (Go t)) w =
    (case act (thr (core w) t) of
       In c p \<Rightarrow> (case access t (smem (core w)) p of
           Some (M, p') \<Rightarrow> Some ((see m t p w)\<lparr>core := (set_act (core w) t (In c p'))\<lparr>smem := M\<rparr>\<rparr>) | None \<Rightarrow> None)
     | _ \<Rightarrow> None)"
| "weak_play1 m ok (Inside e) w =
    (case play1 m ok e (core w) of Some s \<Rightarrow> Some (w\<lparr>core := s\<rparr>) | None \<Rightarrow> None)"
| "weak_play1 m ok (Stale t i) w =
    (case act (thr (core w) t) of
       In c p \<Rightarrow> if may_load w t i then
           (case stale m (fst (past w ! i)) p of
              Some p' \<Rightarrow> Some ((read_past t i w)\<lparr>core := set_act (core w) t (In c p')\<rparr>) | None \<Rightarrow> None)
         else None
     | _ \<Rightarrow> None)"
| "weak_play1 m ok (Write t x v) w =
    (if idle (act (thr (core w) t)) \<and> 0 < depth (thr (core w) t)
     then Some (write_data t x v w) else None)"

fun weak_play :: "addr \<Rightarrow> (call \<Rightarrow> nat \<Rightarrow> bool) \<Rightarrow> weak_event list \<Rightarrow> wsys \<Rightarrow> wsys option" where
  "weak_play m ok [] w = Some w"
| "weak_play m ok (e # es) w = (case weak_play1 m ok e w of Some w' \<Rightarrow> weak_play m ok es w' | None \<Rightarrow> None)"

lemma weak_play1_sound:
  assumes "weak_play1 m ok e w = Some w'"
  shows "weak_step linux_futex m ok w w'"
proof (cases e)
  case (Inside e')
  show ?thesis
  proof (cases "goes e'")
    case True
    then obtain t where "e' = Go t" by (cases e') auto
    with Inside assms show ?thesis by (auto split: activity.splits option.splits intro: weak_step.access)
  next
    case False
    with Inside assms obtain s where "play1 m ok e' (core w) = Some s" "w' = w\<lparr>core := s\<rparr>"
      by (cases e') (auto split: option.splits simp del: play1.simps)
    with False show ?thesis by (auto intro: weak_step.quiet play1_quiet)
  qed
next
  case (Stale t i)
  with assms show ?thesis by (auto split: activity.splits option.splits if_splits intro: weak_step.stale)
next
  case (Write t x v)
  with assms show ?thesis by (auto simp: idle_iff intro: weak_step.data_write split: if_splits)
qed

lemma weak_play_sound:
  "weak_play m ok es w = Some w' \<Longrightarrow> weak_reachable linux_futex m ok w0 w \<Longrightarrow> weak_reachable linux_futex m ok w0 w'"
  by (induction es arbitrary: w) (auto split: option.splits dest!: weak_play1_sound, blast intro: weak_reachable.step)

text \<open>Thread 1 writes 5 under a recursive mutex and unlocks it, then thread 2 takes the mutex.\<close>

definition handover_run :: "weak_event list" where
  "handover_run = map Inside (lock_now 1) @ [Write 1 8192 5] @ map Inside (unlock_now 1) @ map Inside (lock_now 2)"

lemma handover_run:
  "\<exists>w. weak_play 4096 (client_ok Recursive False 4096) handover_run (fresh_weak (fresh_mutex 4096 Recursive False)) = Some w \<and>
    act (thr (core w) 2) = Idle \<and> 0 < depth (thr (core w) 2) \<and> hist w = [(8192, 5)]"
  by (simp add: handover_run_def lock_now_def unlock_now_def fresh_weak_def fresh_views_def write_data_def word_defs run_simps cong: run_congs)

text \<open>Without the mutex the same read may be stale: after thread 1 has unlocked, thread 2 can still read the initial 0.\<close>

lemma stale_without_lock:
  "\<exists>w. weak_reachable linux_futex 4096 (client_ok Recursive False 4096) (fresh_weak (fresh_mutex 4096 Recursive False)) w \<and>
    hist w = [(8192, 5)] \<and> may_read w 2 8192 0"
proof -
  have "\<exists>w. weak_play 4096 (client_ok Recursive False 4096) (map Inside (lock_now 1) @ [Write 1 8192 5] @ map Inside (unlock_now 1))
      (fresh_weak (fresh_mutex 4096 Recursive False)) = Some w \<and> hist w = [(8192, 5)] \<and> cur w 2 = {}"
    by (simp add: lock_now_def unlock_now_def fresh_weak_def fresh_views_def write_data_def word_defs run_simps cong: run_congs)
  then show ?thesis
    using weak_play_sound [OF _ weak_reachable.start] by (fastforce simp: may_read_def)
qed

lemma holder_sees_all_witness:
  "\<exists>w. weak_reachable linux_futex 4096 (client_ok Recursive False 4096) (fresh_weak (fresh_mutex 4096 Recursive False)) w \<and>
    hist w = [(8192, 5)] \<and> (\<forall>v. may_read w 2 8192 v \<longleftrightarrow> v = 5)"
proof -
  obtain w where w: "weak_reachable linux_futex 4096 (client_ok Recursive False 4096)
      (fresh_weak (fresh_mutex 4096 Recursive False)) w"
    "act (thr (core w) 2) = Idle" "0 < depth (thr (core w) 2)" "hist w = [(8192, 5)]"
    using handover_run weak_play_sound [OF _ weak_reachable.start] by metis
  with holder_sees_all [OF w(1-3), of 8192] show ?thesis by (auto simp: last_value_def)
qed

text \<open>After thread 1 has unlocked, thread 2 reads the word that says thread 1 has the mutex; its compare-and-swap fails, it
  reads again and takes the mutex.\<close>

definition stale_run :: "weak_event list" where
  "stale_run = map Inside (lock_now 1) @ [Write 1 8192 5] @ map Inside (unlock_now 1) @
    [Inside (Begin 2 Lock), Stale 2 1] @ map Inside [Go 2, Go 2, Go 2, Go 2, Go 2, Go 2, Go 2, End 2]"

lemma stale_run:
  "\<exists>w. weak_play 4096 (client_ok Recursive False 4096) stale_run (fresh_weak (fresh_mutex 4096 Recursive False)) = Some w \<and>
    in_critical (thr (core w) 2) \<and> act (thr (core w) 2) = Idle \<and> hist w = [(8192, 5)]"
  by (simp add: stale_run_def lock_now_def unlock_now_def fresh_weak_def fresh_views_def write_data_def word_defs order_defs
      run_simps in_critical_def cong: run_congs)

lemma stale_loads_exclude_witness:
  "\<exists>w. weak_reachable linux_futex 4096 (client_ok Recursive False 4096) (fresh_weak (fresh_mutex 4096 Recursive False)) w \<and>
    {u. in_critical (thr (core w) u)} = {2}"
proof -
  obtain w where w: "weak_reachable linux_futex 4096 (client_ok Recursive False 4096)
      (fresh_weak (fresh_mutex 4096 Recursive False)) w" "in_critical (thr (core w) 2)"
    using stale_run weak_play_sound [OF _ weak_reachable.start] by metis
  with stale_loads_exclude [OF w(1) _ w(2)] show ?thesis by blast
qed

end
