(* ===== verification/Wait_Free.thy ===== *)
theory Wait_Free
  imports Schedules
begin

text \<open>
  The calls of a mutex that never wait: \<open>pthread_mutex_unlock\<close>, \<open>pthread_mutex_trylock\<close>, and \<open>pthread_mutex_lock\<close> by the holder of
  a recursive or error-checking mutex. Their compare-and-swap loops can be disturbed by other threads, but only once: all
  another thread can do to a held mutex is mark it contended. So each call returns after a fixed number of its own
  steps, whatever the other threads do.
\<close>

section \<open>Programs that end\<close>

text \<open>What thread \<open>t\<close> can find in the mutex when its depth is \<open>d\<close>; with \<open>c\<close> it knows that its mutex is marked contended.\<close>

definition possible :: "proto \<Rightarrow> cint \<Rightarrow> nat \<Rightarrow> bool \<Rightarrow> ghost \<Rightarrow> cint \<Rightarrow> bool" where
  "possible P t d c g v \<longleftrightarrow> p_inv P g v \<and> gdepth g t = d \<and> (0 < d \<and> c \<longrightarrow> contended v)"

text \<open>\<open>within P m t n p d c\<close>: the program comes to its return after at most \<open>n\<close> steps of its own.\<close>

primrec within :: "proto \<Rightarrow> addr \<Rightarrow> cint \<Rightarrow> nat \<Rightarrow> prog \<Rightarrow> nat \<Rightarrow> bool \<Rightarrow> bool" where
  "within P m t 0 p d c = (case p of Return r \<Rightarrow> True | _ \<Rightarrow> False)"
| "within P m t (Suc n) p d c =
    (case p of
       Return r \<Rightarrow> True
     | Load a k \<Rightarrow>
         if a = m then \<forall>g v. possible P t d c g v \<longrightarrow> within P m t n (k v) d (contended v)
         else \<forall>v. within P m t n (k v) d c
     | Store a v' q \<Rightarrow>
         if a = m then \<forall>g v. possible P t d c g v \<longrightarrow> within P m t n q (gdepth (next_ghost t g v v') t) (contended v')
         else within P m t n q d c
     | Cmpxchg old new a k \<Rightarrow>
         if a = m then \<forall>g v. possible P t d c g v \<longrightarrow>
           (if v = old then within P m t n (k 0) (gdepth (next_ghost t g v new) t) (contended new)
            else within P m t n (k 1) d (contended v))
         else \<forall>r. within P m t n (k r) d c
     | Swap new a k \<Rightarrow>
         if a = m then \<forall>g v. possible P t d c g v \<longrightarrow>
           within P m t n (k v) (gdepth (next_ghost t g v new) t) (contended new)
         else \<forall>v. within P m t n (k v) d c
     | Atomic_dec a k \<Rightarrow>
         if a = m then \<forall>g v. possible P t d c g v \<longrightarrow>
           within P m t n (k v) (gdepth (next_ghost t g v (v - 1)) t) (contended (v - 1))
         else \<forall>v. within P m t n (k v) d c
     | Futex_wait a sh v ts k \<Rightarrow> False
     | Futex_wake a sh j k \<Rightarrow> \<forall>r. within P m t n (k r) d c
     | Clock_gettime cl k \<Rightarrow> \<forall>ts. within P m t n (k ts) d c
     | Get_tid k \<Rightarrow> within P m t n (k t) d c
     | Membar q \<Rightarrow> within P m t n q d c
     | Call l k \<Rightarrow> within P m t n (bind (loop_body l) k) d c)"

text \<open>How a program is taken apart, its loops left folded.\<close>

lemma within_steps:
  "within P m t n (Return r) d c"
  "within P m t (Suc n) (Load m k) d c = (\<forall>g v. possible P t d c g v \<longrightarrow> within P m t n (k v) d (contended v))"
  "within P m t (Suc n) (Store m v' q) d c =
    (\<forall>g v. possible P t d c g v \<longrightarrow> within P m t n q (gdepth (next_ghost t g v v') t) (contended v'))"
  "within P m t (Suc n) (Cmpxchg old new m f) d c =
    (\<forall>g v. possible P t d c g v \<longrightarrow>
      (if v = old then within P m t n (f 0) (gdepth (next_ghost t g v new) t) (contended new)
       else within P m t n (f 1) d (contended v)))"
  "within P m t (Suc n) (Swap new m k) d c =
    (\<forall>g v. possible P t d c g v \<longrightarrow> within P m t n (k v) (gdepth (next_ghost t g v new) t) (contended new))"
  "within P m t (Suc n) (Atomic_dec m k) d c =
    (\<forall>g v. possible P t d c g v \<longrightarrow> within P m t n (k v) (gdepth (next_ghost t g v (v - 1)) t) (contended (v - 1)))"
  "within P m t (Suc n) (Futex_wake a sh j f) d c = (\<forall>r. within P m t n (f r) d c)"
  "within P m t (Suc n) (Get_tid h) d c = within P m t n (h t) d c"
  "within P m t (Suc n) (Membar q) d c = within P m t n q d c"
  by (cases n; simp)+

lemma within_call: "within P m t (Suc n) (Call l k) d c = within P m t n (bind (loop_body l) k) d c"
  by simp

text \<open>A run of the system in which thread \<open>t\<close> has made \<open>n\<close> steps and has not begun another call.\<close>

inductive own_steps :: "futex \<Rightarrow> addr \<Rightarrow> (call \<Rightarrow> nat \<Rightarrow> bool) \<Rightarrow> cint \<Rightarrow> sys \<Rightarrow> nat \<Rightarrow> sys \<Rightarrow> bool"
  for F :: futex and m :: addr and ok :: "call \<Rightarrow> nat \<Rightarrow> bool" and t :: cint and s0 :: sys where
  start: "own_steps F m ok t s0 0 s0"
| own: "own_steps F m ok t s0 n s \<Longrightarrow> act (thr s t) \<noteq> Idle \<Longrightarrow> thread_step F m ok t s s' \<Longrightarrow>
    own_steps F m ok t s0 (Suc n) s'"
| other: "own_steps F m ok t s0 n s \<Longrightarrow> u \<noteq> t \<Longrightarrow> thread_step F m ok u s s' \<Longrightarrow> own_steps F m ok t s0 n s'"

text \<open>Where thread \<open>t\<close> is after \<open>n\<close> of at most \<open>Suc N\<close> steps.\<close>

definition under_way :: "proto \<Rightarrow> addr \<Rightarrow> cint \<Rightarrow> nat \<Rightarrow> nat \<Rightarrow> ghost \<Rightarrow> sys \<Rightarrow> bool" where
  "under_way P m t N n g s \<longleftrightarrow>
    (case act (thr s t) of
       Idle \<Rightarrow> n \<le> Suc N
     | In cl p \<Rightarrow> \<exists>j c. n + j \<le> N \<and> within P m t j p (gdepth g t) c \<and> (0 < gdepth g t \<and> c \<longrightarrow> contended (smem s m))
     | Asleep cl key k \<Rightarrow> False)"

lemma under_way_keep:
  assumes "under_way P m t N n g s" "act (thr s' t) = act (thr s t)" "gdepth g' t = gdepth g t"
    and "0 < gdepth g t \<Longrightarrow> contended (smem s m) \<Longrightarrow> contended (smem s' m)"
  shows "under_way P m t N n g' s'"
  using assms unfolding under_way_def by (cases "act (thr s t)") (simp_all, metis)

lemma quiet_smem: "quiet_step F m ok u s s' \<Longrightarrow> smem s' = smem s"
  by (erule quiet_step.cases) simp_all

lemma quiet_other:
  assumes "quiet_step F m ok u s s'" "u \<noteq> t" "\<not> asleep (act (thr s t))"
  shows "act (thr s' t) = act (thr s t)"
  using assms(1)
proof cases
  case (wake c a sh n k W s1 r)
  with assms(2,3) show ?thesis by (cases "act (thr s t)") auto
qed (use assms(2) in auto)

context verified_calls
begin

lemma within_access:
  assumes "within P m t (Suc j) p (gdepth g t) c" "p_inv P g (M m)" "0 < gdepth g t \<and> c \<longrightarrow> contended (M m)"
    and "access t M p = Some (M', p')"
  shows "\<exists>c. within P m t j p' (gdepth (next_ghost t g (M m) (M' m)) t) c \<and>
    (0 < gdepth (next_ghost t g (M m) (M' m)) t \<and> c \<longrightarrow> contended (M' m))"
proof -
  have now: "possible P t (gdepth g t) c g (M m)" using assms(2,3) by (simp add: possible_def)
  have keep: ?thesis if "M' m = M m" "within P m t j p' (gdepth g t) c"
    using that assms(2,3) next_ghost_same by (intro exI [of _ c]) simp
  have found: ?thesis if "M' m = M m" "within P m t j p' (gdepth g t) (contended (M m))"
    using that assms(2) next_ghost_same by (intro exI [of _ "contended (M m)"]) simp
  have replace: ?thesis if "within P m t j p' (gdepth (next_ghost t g (M m) (M' m)) t) (contended (M' m))"
    using that by (intro exI [of _ "contended (M' m)"]) simp
  show ?thesis
  proof (cases p)
    case (Load a k)
    show ?thesis
    proof (cases "a = m")
      case True
      with Load assms(1,4) now show ?thesis by (intro found) auto
    qed (rule keep; use Load assms(1,4) in auto)
  next
    case (Store a v q)
    show ?thesis
    proof (cases "a = m")
      case True
      with Store assms(1,4) now show ?thesis by (intro replace) auto
    qed (rule keep; use Store assms(1,4) in auto)
  next
    case (Cmpxchg old new a k)
    consider "a \<noteq> m" | "a = m" "M m = old" | "a = m" "M m \<noteq> old" by blast
    then show ?thesis
    proof cases
      case 1
      with Cmpxchg assms(1,4) show ?thesis by (intro keep) (auto split: if_splits)
    next
      case 2
      with Cmpxchg assms(1,4) now show ?thesis by (intro replace) auto
    next
      case 3
      with Cmpxchg assms(1,4) now show ?thesis by (intro found) auto
    qed
  next
    case (Swap new a k)
    show ?thesis
    proof (cases "a = m")
      case True
      with Swap assms(1,4) now show ?thesis by (intro replace) auto
    qed (rule keep; use Swap assms(1,4) in auto)
  next
    case (Atomic_dec a k)
    show ?thesis
    proof (cases "a = m")
      case True
      with Atomic_dec assms(1,4) now show ?thesis by (intro replace) auto
    qed (rule keep; use Atomic_dec assms(1,4) in auto)
  qed (use assms(1,4) keep in auto)
qed

text \<open>The steps of the other threads do not matter to it.\<close>

lemma under_way_other:
  assumes "thread_step F m ok u s s'" "u \<noteq> t" "sys_inv P m g B s" "under_way P m t N n g s"
  shows "\<exists>g B. sys_inv P m g B s' \<and> under_way P m t N n g s'"
  using assms(1)
proof cases
  case (access c p M p')
  let ?g = "next_ghost u g (smem s m) (M m)"
  note keep = access_others [OF assms(3) access(2,3) not_sym [OF assms(2)]]
  from assms(4) have "under_way P m t N n ?g s'"
    by (rule under_way_keep) (use keep assms(2) access(1) in \<open>simp_all add: set_act_def\<close>)
  with step_access [OF assms(3) access(2,3)] access(1) show ?thesis by auto
next
  case quiet
  have "\<not> asleep (act (thr s t))"
    using assms(4) by (auto simp: under_way_def split: activity.splits)
  with quiet_other [OF quiet assms(2)] quiet_smem [OF quiet] under_way_keep [OF assms(4)]
  have "under_way P m t N n g s'" by simp
  with quiet_preserves [OF quiet assms(3)] show ?thesis by blast
qed

text \<open>Each of its own steps brings it nearer to the end.\<close>

lemma under_way_own:
  assumes "thread_step F m ok t s s'" "act (thr s t) \<noteq> Idle" "sys_inv P m g B s" "under_way P m t N n g s"
  shows "\<exists>g B. sys_inv P m g B s' \<and> under_way P m t N (Suc n) g s'"
proof -
  from assms(2,4) obtain cl p j c where p: "act (thr s t) = In cl p" "n + j \<le> N" "within P m t j p (gdepth g t) c"
    "0 < gdepth g t \<and> c \<longrightarrow> contended (smem s m)"
    by (auto simp: under_way_def split: activity.splits)
  from assms(1) show ?thesis
  proof cases
    case (access c' p0 M p')
    with p obtain i where j: "j = Suc i" by (cases j) (auto split: prog.splits)
    with p access within_access [of t i p g c "smem s" M p'] inv_In(3) [OF assms(3) p(1)]
    have "under_way P m t N (Suc n) (next_ghost t g (smem s m) (M m)) s'"
      by (auto simp: under_way_def set_act_def)
    with step_access [OF assms(3) access(2,3)] access(1) show ?thesis by auto
  next
    case quiet
    have "under_way P m t N (Suc n) g s'"
      using quiet by (cases; cases j) (use p in \<open>auto simp: under_way_def split: prog.splits\<close>)
    with quiet_preserves [OF quiet assms(3)] show ?thesis by blast
  qed
qed

lemma own_steps_bounded:
  assumes "own_steps F m ok t s n s'" "sys_inv P m g B s" "under_way P m t N 0 g s"
  shows "\<exists>g B. sys_inv P m g B s' \<and> under_way P m t N n g s'"
  using assms(1)
proof (induction rule: own_steps.induct)
  case start
  with assms(2,3) show ?case by blast
qed (blast dest: under_way_own under_way_other)+

lemma under_way_moves:
  assumes "under_way P m t N n g s" "futex_wake_answers F"
  shows "act (thr s t) = Idle \<or> (\<exists>s'. thread_step F m ok t s s')"
proof (cases "act (thr s t)")
  case (In cl p)
  with assms(1) obtain j c where j: "within P m t j p (gdepth g t) c" by (auto simp: under_way_def)
  show ?thesis
  proof (cases "access t (smem s) p")
    case None
    have "\<exists>s'. quiet_step F m ok t s s'"
    proof (cases p)
      case (Futex_wake a sh i k)
      with In assms(2) show ?thesis unfolding futex_wake_answers_def by (blast intro: quiet_step.wake)
    qed (use In None j in \<open>cases j; auto intro: quiet_step.intros split: if_splits\<close>)+
    then show ?thesis by (blast intro: thread_step.quiet)
  next
    case (Some x)
    with In show ?thesis by (cases x) (blast intro: thread_step.access)
  qed
qed (use assms(1) in \<open>simp_all add: under_way_def\<close>)

end

section \<open>The calls\<close>

text \<open>The fields of a word a thread holds, but for the contention mark, are known to it.\<close>

lemma own_word:
  assumes "possible (mutex_proto k s live m) t d c g v" "possible (mutex_proto k s live m) t d c' g' v'" "0 < d"
    and "contended v = contended v'"
  shows "v = v'"
proof -
  have word: "\<exists>st. v = enc (owner_bits k t) (kind_bits k) (shbit s) (d - 1) st \<and> (contended v \<longleftrightarrow> st = 2) \<and>
      (\<not> contended v \<longleftrightarrow> st = Suc 0)" if "possible (mutex_proto k s live m) t d c g v" for c g v
  proof -
    from that assms(3) have "mutex_inv k s g v" "gdepth g t = d" by (simp_all add: possible_def)
    then show ?thesis
    proof (cases rule: view_cases [where t = t])
      case (mine a st)
      then have "fields_ok (owner_bits k t) (kind_bits k) (shbit s) a st" by (auto intro: held_fields)
      with mine \<open>gdepth g t = d\<close> show ?thesis by (auto simp: enc_simps)
    qed (use \<open>gdepth g t = d\<close> assms(3) in auto)
  qed
  from word [OF assms(1)] word [OF assms(2)] assms(4) show ?thesis by auto
qed

text \<open>A compare-and-swap loop on a word the thread holds: the second attempt succeeds.\<close>

lemma retry_ends:
  assumes loop: "\<And>v. loop_body (L v) =
      Cmpxchg v (f v) m (\<lambda>r. if r = 0 then Return 0 else Load m (\<lambda>v. Call (L v) Return))"
    and v: "possible (mutex_proto k s live m) t d c g v" and d: "0 < d"
  shows "within (mutex_proto k s live m) m t (Suc (Suc (Suc (Suc (Suc 0))))) (Call (L v) Return) d (contended v)"
proof -
  note unfold = loop within_call within_steps
  have again: "within (mutex_proto k s live m) m t (Suc (Suc 0)) (Call (L v) Return) d True"
    if p: "possible (mutex_proto k s live m) t d True g v" for g v
  proof -
    have "v' = v" if "possible (mutex_proto k s live m) t d True g' v'" for g' v'
      using own_word [OF that p d] that p d by (simp add: possible_def)
    then show ?thesis by (auto simp: unfold simp del: within.simps)
  qed
  have reload: "within (mutex_proto k s live m) m t (Suc (Suc (Suc 0))) (Load m (\<lambda>v. Call (L v) Return)) d True"
    unfolding within_steps(2)
  proof (intro allI impI)
    fix g v assume p: "possible (mutex_proto k s live m) t d True g v"
    then have "contended v" using d by (simp add: possible_def)
    with again [OF p] show "within (mutex_proto k s live m) m t (Suc (Suc 0)) (Call (L v) Return) d (contended v)" by simp
  qed
  have "contended v' = True" if "possible (mutex_proto k s live m) t d (contended v) g' v'" "v' \<noteq> v" for g' v'
    using own_word [OF v that(1) d] that d by (cases "contended v") (auto simp: possible_def)
  with reload show ?thesis
    unfolding within_call loop by (simp add: within_steps(1,4) del: within.simps)
qed

fun never_waits :: "mkind \<Rightarrow> call \<Rightarrow> nat \<Rightarrow> bool" where
  "never_waits k Unlock n \<longleftrightarrow> True"
| "never_waits k Trylock n \<longleftrightarrow> True"
| "never_waits k Lock n \<longleftrightarrow> k \<noteq> Normal \<and> 0 < n"
| "never_waits k c n \<longleftrightarrow> False"

lemma possible_word:
  assumes "possible (mutex_proto k s live m) t d c g v" "valid_tid t"
  shows "v AND MUTEX_TYPE_MASK = MUTEX_TYPE_BITS_NORMAL \<longleftrightarrow> k = Normal"
    "k \<noteq> Normal \<Longrightarrow> t = MUTEX_OWNER_FROM_BITS v \<longleftrightarrow> 0 < d"
proof -
  have v: "mutex_inv k s g v" "gdepth g t = d" using assms(1) by (simp_all add: possible_def)
  then show "v AND MUTEX_TYPE_MASK = MUTEX_TYPE_BITS_NORMAL \<longleftrightarrow> k = Normal"
    by (cases k) (simp_all add: word_fields enc_simps)
  show "k \<noteq> Normal \<Longrightarrow> t = MUTEX_OWNER_FROM_BITS v \<longleftrightarrow> 0 < d"
    using word_owner [OF v(1) _ assms(2)] v(2) by simp
qed

lemma unlock_retry:
  assumes "possible (mutex_proto k s live m) t d c g v" "0 < d"
  shows "within (mutex_proto k s live m) m t (Suc (Suc (Suc (Suc (Suc 0))))) (Call (L_mutex_unlock m v) Return) d (contended v)"
  by (rule retry_ends [OF _ assms]) (simp add: mutex_unlock_loop_def Let_def)

lemma relock_retry:
  assumes "possible (mutex_proto k s live m) t d c g v" "0 < d"
  shows "within (mutex_proto k s live m) m t (Suc (Suc (Suc (Suc (Suc 0))))) (Call (L_recursive_increment m v) Return) d (contended v)"
  by (rule retry_ends [OF _ assms]) (simp add: recursive_increment_loop_def Let_def)

lemma calls_end:
  assumes "never_waits k c d" "valid_tid t"
  shows "within (mutex_proto k s live m) m t (Suc (Suc (Suc (Suc (Suc (Suc (Suc 0))))))) (call_prog m c) d False"
  using assms
  by (cases c) (auto simp: call_defs Let_def within_steps possible_word intro: unlock_retry relock_retry simp del: within.simps(2))

section \<open>Wait-freedom\<close>

text \<open>C5: unlocking, trying to lock, and locking a recursive or error-checking mutex one already holds are wait-free:
  after such a call has begun, and whatever any number of other threads do in between, the calling thread has returned
  after at most eight steps of its own, it never sleeps, and as long as it is inside the call it can make its next
  step. The kernel is only assumed to answer wake-ups.\<close>

theorem wait_free_calls:
  assumes "reachable F m (client_ok k False m) (fresh_mutex m k s) \<sigma>" "valid_tid t" "act (thr \<sigma> t) = Idle"
    and "never_waits k c (depth (thr \<sigma> t))" "client_ok k False m c (depth (thr \<sigma> t))"
    and "own_steps F m (client_ok k False m) t (set_act \<sigma> t (In c (call_prog m c))) n \<sigma>'"
    and "futex_wake_answers F"
  shows "n \<le> 8 \<and> (act (thr \<sigma>' t) = Idle \<or> n < 8 \<and> (\<exists>\<sigma>''. thread_step F m (client_ok k False m) t \<sigma>' \<sigma>''))"
proof -
  let ?P = "mutex_proto k s False m"
  obtain g B where inv: "sys_inv ?P m g B \<sigma>"
    using safe.reachable_inv [OF assms(1) [unfolded fresh_mutex_free], of s] by auto
  then have d: "gdepth g t = depth (thr \<sigma> t)"
    using assms(3) by (auto simp: sys_inv_def thread_inv_def dest!: spec [of _ t])
  obtain B' where inv': "sys_inv ?P m g B' (set_act \<sigma> t (In c (call_prog m c)))"
    using safe.step_call [OF inv assms(2,3,5)] by blast
  have "under_way ?P m t 7 0 g (set_act \<sigma> t (In c (call_prog m c)))"
    using calls_end [OF assms(4,2), of s False m]
    by (auto simp: under_way_def d eval_nat_numeral intro!: exI [of _ False] exI [of _ "7 :: nat"] simp del: within.simps)
  from safe.own_steps_bounded [OF assms(6) inv' this] obtain g' B' where "under_way ?P m t 7 n g' \<sigma>'" by blast
  with safe.under_way_moves [OF this assms(7)] show ?thesis
    by (auto simp: under_way_def split: activity.splits)
qed

text \<open>Thread 1 holds a recursive mutex twice and is about to give one hold back when thread 2 marks the mutex contended: the
  first compare-and-swap of thread 1 fails.\<close>

definition disturbed_run :: "event list" where
  "disturbed_run = [Go 1, Begin 2 Lock, Go 2, Go 2, Go 1, Go 2, Go 2, Go 1, Go 1, Go 1, Go 1, Go 1, End 1]"

fun begins :: "event \<Rightarrow> bool" where
  "begins (Begin t c) = True"
| "begins e = False"

lemma play1_inside: "play1 m ok e s = Some s' \<Longrightarrow> \<not> begins e \<Longrightarrow> act (thr s (mover e)) \<noteq> Idle"
  by (cases e) (auto split: activity.splits)

lemma play_own:
  assumes "play m ok es s = Some s'" "own_steps linux_futex m ok t s0 n s" "\<forall>e\<in>set es. mover e = t \<longrightarrow> \<not> begins e"
  shows "own_steps linux_futex m ok t s0 (n + length (filter (\<lambda>e. mover e = t) es)) s'"
  using assms
proof (induction es arbitrary: n s)
  case (Cons e es)
  then obtain s1 where s1: "play1 m ok e s = Some s1" "play m ok es s1 = Some s'" by (auto split: option.splits)
  note step = play1_thread [OF s1(1)]
  show ?case
  proof (cases "mover e = t")
    case True
    with Cons.prems(2,3) step play1_inside [OF s1(1)] have "own_steps linux_futex m ok t s0 (Suc n) s1"
      by (auto intro: own_steps.own)
    from Cons.IH [OF s1(2) this] Cons.prems(3) True show ?thesis by simp
  next
    case False
    with Cons.prems(2) step have "own_steps linux_futex m ok t s0 n s1" by (blast intro: own_steps.other)
    from Cons.IH [OF s1(2) this] Cons.prems(3) False show ?thesis by simp
  qed
qed simp

lemma disturbed_run:
  "\<exists>\<sigma>. play 4096 (client_ok Recursive False 4096) (lock_now 1 @ lock_now 1) (fresh_mutex 4096 Recursive False) = Some \<sigma> \<and>
    act (thr \<sigma> 1) = Idle \<and>
    (\<exists>\<sigma>'. play 4096 (client_ok Recursive False 4096) disturbed_run (set_act \<sigma> 1 (In Unlock (call_prog 4096 Unlock))) = Some \<sigma>')"
  by (simp add: disturbed_run_def lock_now_def mutex_unlock_loop_def run_simps cong: run_congs)

lemma wait_free_calls_witness:
  "\<exists>\<sigma> \<sigma>'. reachable linux_futex 4096 (client_ok Recursive False 4096) (fresh_mutex 4096 Recursive False) \<sigma> \<and>
    own_steps linux_futex 4096 (client_ok Recursive False 4096) 1 (set_act \<sigma> 1 (In Unlock (call_prog 4096 Unlock))) 8 \<sigma>' \<and>
    act (thr \<sigma>' 1) = Idle"
proof -
  let ?ok = "client_ok Recursive False 4096"
  obtain \<sigma> \<sigma>' where \<sigma>: "play 4096 ?ok (lock_now 1 @ lock_now 1) (fresh_mutex 4096 Recursive False) = Some \<sigma>"
    "act (thr \<sigma> 1) = Idle" "play 4096 ?ok disturbed_run (set_act \<sigma> 1 (In Unlock (call_prog 4096 Unlock))) = Some \<sigma>'"
    using disturbed_run by blast
  from play_sound [OF \<sigma>(1) reachable.start]
  have reach: "reachable linux_futex 4096 ?ok (fresh_mutex 4096 Recursive False) \<sigma>" .
  moreover have own: "own_steps linux_futex 4096 ?ok 1 (set_act \<sigma> 1 (In Unlock (call_prog 4096 Unlock))) 8 \<sigma>'"
    using play_own [OF \<sigma>(3) own_steps.start, of 1] by (simp add: disturbed_run_def eval_nat_numeral)
  moreover have "act (thr \<sigma>' 1) = Idle"
    using wait_free_calls [OF reach _ \<sigma>(2) _ _ own linux_answers(1)] by (simp add: valid_tid_def)
  ultimately show ?thesis by blast
qed

end
