(* ===== verification/Solo.thy ===== *)
theory Solo
  imports Schedules
begin

text \<open>
  The two ways to run a call agree: a call of theory \<open>Threads\<close>, run from beginning to end by \<open>exec\<close>, is a schedule of the
  system of theory \<open>Interleave\<close> in which the other threads do nothing. So the refinement results, which speak of one call
  run alone, hold for the states any interleaving has led to.
\<close>

section \<open>Running alone\<close>

text \<open>The steps of a thread inside its call: it does not return from it, so it makes no other call either.\<close>

definition inside_step :: "futex \<Rightarrow> addr \<Rightarrow> (call \<Rightarrow> nat \<Rightarrow> bool) \<Rightarrow> cint \<Rightarrow> sys \<Rightarrow> sys \<Rightarrow> bool" where
  "inside_step F m ok t s s' \<longleftrightarrow> thread_step F m ok t s s' \<and> act (thr s' t) \<noteq> Idle"

abbreviation solo :: "futex \<Rightarrow> addr \<Rightarrow> (call \<Rightarrow> nat \<Rightarrow> bool) \<Rightarrow> cint \<Rightarrow> sys \<Rightarrow> sys \<Rightarrow> bool" where
  "solo F m ok t \<equiv> (inside_step F m ok t)\<^sup>*\<^sup>*"

lemma solo_first:
  "thread_step F m ok t s s' \<Longrightarrow> act (thr s' t) \<noteq> Idle \<Longrightarrow> \<exists>s''. solo F m ok t s' s'' \<and> Q s'' \<Longrightarrow>
    \<exists>s''. solo F m ok t s s'' \<and> Q s''"
  by (blast intro: converse_rtranclp_into_rtranclp inside_step_def [THEN iffD2])

text \<open>What the end of a run looks like from outside.\<close>

fun ends_as :: "cint \<Rightarrow> call \<Rightarrow> outcome \<Rightarrow> sys \<Rightarrow> bool" where
  "ends_as t c (Finished r w) s \<longleftrightarrow> act (thr s t) = In c (Return r) \<and> smem s = mem w"
| "ends_as t c (Blocked w) s \<longleftrightarrow> asleep (act (thr s t)) \<and> smem s = mem w"
| "ends_as t c out s \<longleftrightarrow> True"

lemma exec_access:
  assumes "access (env_tid E) (mem w) p = Some (M, p')"
  shows "exec E (Suc n) p w = Fault \<or> exec E (Suc n) p w = exec E n p' (w\<lparr>mem := M\<rparr>)"
  using assms by (cases p) (auto split: if_splits)

lemma exec_solo:
  assumes F: "futex_wake_answers F" "futex_compares F" and "act (thr s t) = In c p" "smem s = mem w"
  shows "\<exists>s'. solo F m ok t s s' \<and> ends_as t c (exec (quiet_env t) n p w) s'"
  using assms(3,4)
proof (induction n arbitrary: p w s)
  case (Suc n)
  note go = solo_first [OF thread_step.quiet]
  show ?case
  proof (cases "access t (smem s) p")
    case (Some x)
    then obtain M p' where x: "access t (smem s) p = Some (M, p')" by (cases x) auto
    from x Suc.prems(2) consider "exec (quiet_env t) (Suc n) p w = Fault"
      | "exec (quiet_env t) (Suc n) p w = exec (quiet_env t) n p' (w\<lparr>mem := M\<rparr>)"
      using exec_access [of "quiet_env t" w p M p' n] by auto
    then show ?thesis
    proof cases
      case 2
      show ?thesis unfolding 2
        by (rule solo_first [OF thread_step.access [OF Suc.prems(1) x] _ Suc.IH]) (simp_all add: set_act_def)
    qed (auto intro: exI [of _ s])
  next
    case None
    show ?thesis
    proof (cases p)
      case (Return r)
      with Suc.prems show ?thesis by (intro exI [of _ s]) simp
    next
      case (Clock_gettime cl k)
      with Suc.prems(1) have "quiet_step F m ok t s (set_act s t (In c (k (env_clock (quiet_env t) cl (ticks w)))))"
        by (auto intro: quiet_step.clock)
      from go [OF this _ Suc.IH [where w = "w\<lparr>ticks := Suc (ticks w)\<rparr>"]] Clock_gettime Suc.prems(2) show ?thesis by simp
    next
      case (Futex_wake a sh j k)
      obtain W where W: "fwake F {u. queued (wake_key a sh) (act (thr s u))} j W"
        using F(1) unfolding futex_wake_answers_def by blast
      let ?s = "s\<lparr>thr := (\<lambda>u. if u \<in> W then (thr s u)\<lparr>act := wake_up (act (thr s u))\<rparr> else thr s u)\<rparr>"
      from Futex_wake Suc.prems(1) W have "quiet_step F m ok t s (set_act ?s t (In c (k (env_wake (quiet_env t) w a j))))"
        by (auto intro: quiet_step.wake simp del: key_simps)
      from go [OF this _ Suc.IH [where w = "w\<lparr>wakes := wakes w @ [(a, sh, j)]\<rparr>"]] Futex_wake Suc.prems show ?thesis by simp
    next
      case (Futex_wait a sh v ts k)
      have wait: "fwait F (smem s a) v (if smem s a = v then None else Some (- EAGAIN))"
        using F(2) unfolding futex_compares_def by blast
      let ?sleep = "set_act s t (Asleep c (wait_key a sh) k)"
      show ?thesis
      proof (cases "smem s a = v")
        case True
        with wait have sleep: "thread_step F m ok t s ?sleep"
          using quiet_step.wait_sleep [of s t c a sh v ts k F m ok] Suc.prems(1) Futex_wait by (simp add: thread_step.quiet)
        show ?thesis
        proof (cases ts)
          case None
          with sleep True Futex_wait Suc.prems show ?thesis
            by (intro exI [of _ ?sleep]) (auto simp: inside_step_def simp del: key_simps)
        next
          case (Some x)
          have "quiet_step F m ok t ?sleep (set_act ?sleep t (In c (k (- ETIMEDOUT))))"
            by (rule quiet_step.interrupted) simp
          from solo_first [OF sleep _ go [OF this _ Suc.IH [where w = w]]] Some True Futex_wait Suc.prems show ?thesis
            by simp
        qed
      next
        case False
        with wait have "quiet_step F m ok t s (set_act s t (In c (k (- EAGAIN))))"
          using quiet_step.wait_return [of s t c a sh v ts k F "- EAGAIN" m ok] Suc.prems(1) Futex_wait by simp
        from go [OF this _ Suc.IH [where w = w]] False Futex_wait Suc.prems show ?thesis by simp
      qed
    qed (use None in \<open>auto split: if_splits\<close>)
  qed
qed (auto intro: exI [of _ s])

subsection \<open>Calls that make no system call\<close>

text \<open>A call that finishes without the kernel, in an environment whose waits never return, consists of accesses to memory
  only, so there is only one way through it.\<close>

definition deaf_env :: "cint \<Rightarrow> env" where
  "deaf_env t = (quiet_env t)\<lparr>env_wait := (\<lambda>w a v ts. None)\<rparr>"

lemma deaf_env [simp]: "env_tid (deaf_env t) = t" "env_wait (deaf_env t) w a v ts = None"
  by (simp_all add: deaf_env_def)

definition access_step :: "futex \<Rightarrow> addr \<Rightarrow> (call \<Rightarrow> nat \<Rightarrow> bool) \<Rightarrow> cint \<Rightarrow> sys \<Rightarrow> sys \<Rightarrow> bool" where
  "access_step F m ok t s s' \<longleftrightarrow> inside_step F m ok t s s' \<and> (\<forall>s''. inside_step F m ok t s s'' \<longrightarrow> s'' = s')"

lemma only_access:
  assumes "act (thr s t) = In c p" "access t (smem s) p = Some (M, p')"
  shows "access_step F m ok t s ((set_act s t (In c p'))\<lparr>smem := M\<rparr>)"
proof -
  have "s'' = (set_act s t (In c p'))\<lparr>smem := M\<rparr>" if "thread_step F m ok t s s''" for s''
    using that
  proof cases
    case quiet
    then show ?thesis by cases (use assms in \<open>auto split: if_splits\<close>)
  qed (use assms in auto)
  with thread_step.access [OF assms] show ?thesis by (auto simp: access_step_def inside_step_def)
qed

lemma exec_log:
  "exec (deaf_env t) n p w = Finished r w' \<Longrightarrow> length (wakes w) \<le> length (wakes w') \<and> ticks w \<le> ticks w'"
proof (induction n arbitrary: p w)
  case (Suc n)
  then show ?case by (cases p) (fastforce split: if_splits)+
qed simp

lemma exec_only_access:
  assumes "exec (deaf_env t) n p w = Finished r w'" "wakes w' = wakes w" "ticks w' = ticks w"
    and "act (thr s t) = In c p" "smem s = mem w"
  shows "\<exists>s'. (access_step F m ok t)\<^sup>*\<^sup>* s s' \<and> act (thr s' t) = In c (Return r)"
  using assms
proof (induction n arbitrary: p w s)
  case (Suc n)
  show ?case
  proof (cases "access t (smem s) p")
    case (Some x)
    then obtain M p' where x: "access t (smem s) p = Some (M, p')" by (cases x) auto
    with Suc.prems exec_access [of "deaf_env t" w p M p' n]
    have "exec (deaf_env t) n p' (w\<lparr>mem := M\<rparr>) = Finished r w'" by auto
    from Suc.IH [OF this, of "(set_act s t (In c p'))\<lparr>smem := M\<rparr>"] Suc.prems(2,3) obtain s' where
      "(access_step F m ok t)\<^sup>*\<^sup>* ((set_act s t (In c p'))\<lparr>smem := M\<rparr>) s'" "act (thr s' t) = In c (Return r)"
      by (auto simp: set_act_def)
    with only_access [OF Suc.prems(4) x, of F m ok] show ?thesis by (blast intro: converse_rtranclp_into_rtranclp)
  next
    case None
    then show ?thesis using Suc.prems
    proof (cases p)
      case (Clock_gettime cl k)
      with Suc.prems(1,3) exec_log [of t n _ "w\<lparr>ticks := Suc (ticks w)\<rparr>" r w'] show ?thesis by fastforce
    next
      case (Futex_wake a sh j k)
      with Suc.prems(1,2) exec_log [of t n _ "w\<lparr>wakes := wakes w @ [(a, sh, j)]\<rparr>" r w'] show ?thesis by fastforce
    qed (auto split: if_splits)
  qed
qed simp

text \<open>So whatever such a call does, it comes to the same end.\<close>

lemma stuck_at_return:
  assumes "act (thr s t) = In c (Return r)"
  shows "\<not> inside_step F m ok t s s'"
proof -
  have "act (thr s' t) = Idle" if "thread_step F m ok t s s'"
    using that
  proof cases
    case quiet
    then show ?thesis by cases (use assms in auto)
  qed (use assms in auto)
  then show ?thesis by (auto simp: inside_step_def)
qed

lemma access_solo: "(access_step F m ok t)\<^sup>*\<^sup>* s e \<Longrightarrow> solo F m ok t s e"
  by (erule rtranclp_mono [THEN predicate2D, rotated]) (auto simp: access_step_def)

lemma solo_confluent:
  assumes "(access_step F m ok t)\<^sup>*\<^sup>* s e" "act (thr e t) = In c (Return r)" "solo F m ok t s s'"
  shows "solo F m ok t s' e"
  using assms(1,3)
proof (induction rule: converse_rtranclp_induct)
  case base
  then show ?case using stuck_at_return [OF assms(2)] by (auto elim: converse_rtranclpE)
next
  case (step s y)
  note one = step.hyps(1) [unfolded access_step_def] and IH = step.IH
    and run = access_solo [OF converse_rtranclp_into_rtranclp [OF step.hyps]]
  from step.prems show ?case
  proof (cases rule: converse_rtranclpE)
    case base
    with run show ?thesis by simp
  next
    case (step z)
    with one IH show ?thesis by auto
  qed
qed

section \<open>Locking alone\<close>

text \<open>What a thread gets that holds the mutex \<open>d\<close> times and locks it while the others do nothing; \<open>None\<close> when it has to wait.\<close>

definition lone_lock :: "mkind \<Rightarrow> nat \<Rightarrow> bool \<Rightarrow> cint option" where
  "lone_lock k d other =
    (if other then None
     else if d = 0 then Some 0
     else case k of Normal \<Rightarrow> None | Errorcheck \<Rightarrow> Some EDEADLK | Recursive \<Rightarrow> Some (if d < 2048 then 0 else EAGAIN))"

lemma lone_lock_run:
  assumes "valid_tid t" "m \<noteq> NULL" "futex_wake_answers F" "futex_compares F" "amutex_ok a" "smem \<sigma> m = encode a"
  shows "a_lock (unat t) (a_kind a) (a_hold a) = Locks r h \<Longrightarrow>
      \<forall>\<sigma>1. solo F m ok t (set_act \<sigma> t (In Lock (call_prog m Lock))) \<sigma>1 \<longrightarrow>
        (\<exists>\<sigma>2. solo F m ok t \<sigma>1 \<sigma>2 \<and> act (thr \<sigma>2 t) = In Lock (Return r))"
    and "a_lock (unat t) (a_kind a) (a_hold a) = Sleeps h \<Longrightarrow>
      \<exists>\<sigma>1. solo F m ok t (set_act \<sigma> t (In Lock (call_prog m Lock))) \<sigma>1 \<and> asleep (act (thr \<sigma>1 t)) \<and>
        smem \<sigma>1 m = encode (a\<lparr>a_hold := h\<rparr>)"
proof -
  let ?s = "set_act \<sigma> t (In Lock (call_prog m Lock))" and ?w = "\<lparr>mem = smem \<sigma>, wakes = [], ticks = 0\<rparr>"
  show "\<forall>\<sigma>1. solo F m ok t ?s \<sigma>1 \<longrightarrow> (\<exists>\<sigma>2. solo F m ok t \<sigma>1 \<sigma>2 \<and> act (thr \<sigma>2 t) = In Lock (Return r))"
    if lock: "a_lock (unat t) (a_kind a) (a_hold a) = Locks r h"
  proof -
    have "exec (deaf_env t) 12 (pthread_mutex_lock m) ?w = Finished r (set_mutex ?w m (encode (a\<lparr>a_hold := h\<rparr>)))"
      using exec_lock [OF assms(2) _ assms(5), of "deaf_env t" ?w] assms(1,6) lock by simp
    from exec_only_access [OF this, of ?s Lock F m ok]
    obtain e where "(access_step F m ok t)\<^sup>*\<^sup>* ?s e" "act (thr e t) = In Lock (Return r)" by auto
    then show ?thesis by (blast intro: solo_confluent)
  qed
  show "\<exists>\<sigma>1. solo F m ok t ?s \<sigma>1 \<and> asleep (act (thr \<sigma>1 t)) \<and> smem \<sigma>1 m = encode (a\<lparr>a_hold := h\<rparr>)"
    if lock: "a_lock (unat t) (a_kind a) (a_hold a) = Sleeps h"
  proof -
    have "exec (quiet_env t) 12 (pthread_mutex_lock m) ?w = Blocked (set_mutex ?w m (encode (a\<lparr>a_hold := h\<rparr>)))"
      using exec_lock [OF assms(2) _ assms(5), of "quiet_env t" ?w] assms(1,6) lock by simp
    with exec_solo [OF assms(3,4), of ?s t Lock "pthread_mutex_lock m" ?w m ok 12] show ?thesis by auto
  qed
qed

text \<open>C15: take any state an interleaving leads to in which no thread is inside a call, and let a thread call
  \<open>pthread_mutex_lock\<close> and run alone, within this one call. If no thread holds the mutex it gets it, and if it holds the
  mutex itself it gets the answer of its kind: another hold up to 2048 of them and then \<open>EAGAIN\<close>, or \<open>EDEADLK\<close>; whatever
  step of the call it has come to, that is the answer it still comes to. Otherwise, and on a normal mutex it holds
  itself, it can go to sleep, with the mutex marked contended.\<close>

theorem lone_lock_result:
  assumes "reachable F m (client_ok k False m) (fresh_mutex m k s) \<sigma>" "\<forall>u. act (thr \<sigma> u) = Idle"
    and "valid_tid t" "m \<noteq> NULL" "futex_wake_answers F" "futex_compares F"
  shows "case lone_lock k (depth (thr \<sigma> t)) (\<exists>u. u \<noteq> t \<and> 0 < depth (thr \<sigma> u)) of
      Some r \<Rightarrow> \<forall>\<sigma>1. solo F m (client_ok k False m) t (set_act \<sigma> t (In Lock (call_prog m Lock))) \<sigma>1 \<longrightarrow>
        (\<exists>\<sigma>2. solo F m (client_ok k False m) t \<sigma>1 \<sigma>2 \<and> act (thr \<sigma>2 t) = In Lock (Return r))
    | None \<Rightarrow> \<exists>\<sigma>1. solo F m (client_ok k False m) t (set_act \<sigma> t (In Lock (call_prog m Lock))) \<sigma>1 \<and>
        asleep (act (thr \<sigma>1 t)) \<and> contended (smem \<sigma>1 m)"
proof -
  obtain g where g: "mutex_inv k s g (smem \<sigma> m)" "\<And>t. depth (thr \<sigma> t) = gdepth g t"
    using safe.quiet_word [OF assms(1) [unfolded fresh_mutex_free] _ assms(2), of s] by auto
  note run = lone_lock_run [OF assms(3-6), where \<sigma> = \<sigma> and ok = "client_ok k False m"]
  from g(1) show ?thesis
  proof (cases rule: mutex_inv_encode)
    case 1
    from run(1) [of "\<lparr>a_kind = k, a_shared = s, a_hold = Free\<rparr>"] 1 g(2) show ?thesis
      by (simp add: amutex_ok_def a_lock_def lone_lock_def)
  next
    case (2 u c b)
    let ?a = "\<lparr>a_kind = k, a_shared = s, a_hold = Held (owner_bits k u) c b\<rparr>"
    show ?thesis
    proof (cases "u = t \<and> k \<noteq> Normal")
      case True
      with run(1) [of ?a] 2 g(2) show ?thesis
        by (cases k) (auto simp: amutex_ok_def a_lock_def lone_lock_def split: if_splits)
    next
      case False
      then have "a_lock (unat t) k (Held (owner_bits k u) c b) = Sleeps (Held (owner_bits k u) c True)"
        by (auto simp: a_lock_def kind_facts word_unat_eq_iff)
      moreover have "contended (encode \<lparr>a_kind = k, a_shared = s, a_hold = Held (owner_bits k u) c True\<rparr>)"
        using 2(2) by (cases k) (auto simp: encode_def enc_simps fields_ok_def)
      moreover have "lone_lock k (depth (thr \<sigma> t)) (\<exists>u. u \<noteq> t \<and> 0 < depth (thr \<sigma> u)) = None"
        using False 2(1) g(2) by (auto simp: lone_lock_def)
      ultimately show ?thesis using run(2) [of ?a] 2 by (auto simp: amutex_ok_def)
    qed
  qed
qed

lemma lone_lock_result_witness:
  "\<exists>\<sigma> \<sigma>1 \<sigma>2. reachable linux_futex 4096 (client_ok Recursive False 4096) (fresh_mutex 4096 Recursive False) \<sigma> \<and>
    depth (thr \<sigma> 1) = 2 \<and>
    solo linux_futex 4096 (client_ok Recursive False 4096) 1 (set_act \<sigma> 1 (In Lock (call_prog 4096 Lock))) \<sigma>1 \<and>
    act (thr \<sigma>1 1) = In Lock (Return 0) \<and>
    solo linux_futex 4096 (client_ok Recursive False 4096) 2 (set_act \<sigma> 2 (In Lock (call_prog 4096 Lock))) \<sigma>2 \<and>
    asleep (act (thr \<sigma>2 2)) \<and> contended (smem \<sigma>2 4096)"
proof -
  obtain \<sigma> where \<sigma>: "reachable linux_futex 4096 (client_ok Recursive False 4096) (fresh_mutex 4096 Recursive False) \<sigma>"
    "depth (thr \<sigma> 1) = 2" "\<forall>u. act (thr \<sigma> u) = Idle"
    using twice_run by (rule play_reachable) blast
  have other: "(\<exists>u. u \<noteq> 1 \<and> 0 < depth (thr \<sigma> u)) = False" "(\<exists>u. u \<noteq> 2 \<and> 0 < depth (thr \<sigma> u)) = True"
  proof -
    have "in_critical (thr \<sigma> u)" if "0 < depth (thr \<sigma> u)" for u using \<sigma>(3) that by (simp add: in_critical_def)
    with safe.exclusion [OF \<sigma>(1) [unfolded fresh_mutex_free], of False 1] \<sigma>(2)
    show "(\<exists>u. u \<noteq> 1 \<and> 0 < depth (thr \<sigma> u)) = False" by auto
    show "(\<exists>u. u \<noteq> 2 \<and> 0 < depth (thr \<sigma> u)) = True" using \<sigma>(2) by (auto intro!: exI [of _ 1])
  qed
  note lone = lone_lock_result [OF \<sigma>(1,3) _ _ linux_answers]
  have "\<exists>\<sigma>1. solo linux_futex 4096 (client_ok Recursive False 4096) 1 (set_act \<sigma> 1 (In Lock (call_prog 4096 Lock))) \<sigma>1 \<and>
      act (thr \<sigma>1 1) = In Lock (Return 0)"
    using lone [of 1, unfolded other \<sigma>(2)] by (auto simp: lone_lock_def valid_tid_def)
  moreover have "\<exists>\<sigma>2. solo linux_futex 4096 (client_ok Recursive False 4096) 2
      (set_act \<sigma> 2 (In Lock (call_prog 4096 Lock))) \<sigma>2 \<and> asleep (act (thr \<sigma>2 2)) \<and> contended (smem \<sigma>2 4096)"
    using lone [of 2, unfolded other] by (simp add: lone_lock_def valid_tid_def)
  ultimately show ?thesis using \<sigma>(1,2) by blast
qed

end
