(* ===== verification/Once.thy ===== *)
theory Once
  imports Interleave
begin

text \<open>
  \<open>pthread_once\<close> of \<^verbatim>\<open>libp4hread/bionic/pthread.c\<close> (the text under \<^verbatim>\<open>#if 0\<close> at the end of the file): one control
  word for which many threads ask that an initialisation has run. The function is a machine with one state
  per access to the control word and per barrier; its steps are those of theory \<open>Interleave\<close>, with the same kernel.
\<close>

section \<open>The machine\<close>

definition ONCE_INITIALIZING :: cint where "ONCE_INITIALIZING = push_bit 0 1"
definition ONCE_COMPLETED :: cint where "ONCE_COMPLETED = push_bit 1 1"
definition PTHREAD_ONCE_INIT :: cint where "PTHREAD_ONCE_INIT = 0"

text \<open>Where a thread is: the accesses and the barriers in the order of the code, the initialisation routine, the return.\<close>

datatype once_pc =
    Outside              \<comment> \<open>not inside a call\<close>
  | Check                \<comment> \<open>the first read of \<open>*ocptr\<close>\<close>
  | Read                 \<comment> \<open>\<open>oldval = *ocptr\<close> in the loops\<close>
  | Cas cint             \<comment> \<open>\<open>__bionic_cmpxchg(oldval, newval, ocptr)\<close>\<close>
  | Wait_for cint        \<comment> \<open>\<open>__futex_wait_ex(ocptr, 0, oldval, NULL)\<close>\<close>
  | Sleeping
  | Start_init                 \<comment> \<open>about to call \<open>init_routine\<close>\<close>
  | Running              \<comment> \<open>inside \<open>init_routine\<close>\<close>
  | Release              \<comment> \<open>\<open>ANDROID_MEMBAR_FULL()\<close> before the store\<close>
  | Publish              \<comment> \<open>\<open>*ocptr = ONCE_COMPLETED\<close>\<close>
  | Waking               \<comment> \<open>\<open>__futex_wake_ex(ocptr, 0, INT_MAX)\<close>\<close>
  | Acquire              \<comment> \<open>\<open>ANDROID_MEMBAR_FULL()\<close> before \<open>return 0\<close>\<close>
  | Returned             \<comment> \<open>\<open>return 0\<close>\<close>

text \<open>One access to the control word, or a barrier: the new place and the new word.\<close>

fun once_access :: "once_pc \<Rightarrow> cint \<Rightarrow> (once_pc \<times> cint) option" where
  "once_access Check v = Some (if v AND ONCE_COMPLETED \<noteq> 0 then Acquire else Read, v)"
| "once_access Read v = Some (if v AND ONCE_COMPLETED \<noteq> 0 then Acquire else Cas v, v)"
| "once_access (Cas oldval) v =
    (let newval = oldval OR ONCE_INITIALIZING in
     if v = oldval
     then Some (if oldval AND ONCE_INITIALIZING = 0 then Start_init else Wait_for oldval, newval)
     else Some (Read, v))"
| "once_access Release v = Some (Publish, v)"
| "once_access Publish v = Some (Waking, ONCE_COMPLETED)"
| "once_access Acquire v = Some (Returned, v)"
| "once_access _ v = None"

text \<open>\<open>begun\<close> and \<open>ended\<close> count the calls of the initialisation routine and its returns.\<close>

record once =
  ocptr :: cint
  pc :: "cint \<Rightarrow> once_pc"
  begun :: nat
  ended :: nat

definition goto :: "cint \<Rightarrow> once_pc \<Rightarrow> once \<Rightarrow> once" where
  "goto t x s = s\<lparr>pc := (pc s)(t := x)\<rparr>"

definition sleepers :: "once \<Rightarrow> cint set" where
  "sleepers s = {u. pc s u = Sleeping}"

text \<open>The steps that do not touch the control word, and all steps.\<close>

inductive once_quiet :: "futex \<Rightarrow> once \<Rightarrow> once \<Rightarrow> bool" for F :: futex where
  enter: "pc s t = Outside \<or> pc s t = Returned \<Longrightarrow> once_quiet F s (goto t Check s)"
| wait_return: "pc s t = Wait_for oldval \<Longrightarrow> fwait F (ocptr s) oldval (Some r) \<Longrightarrow> once_quiet F s (goto t Read s)"
| wait_sleep: "pc s t = Wait_for oldval \<Longrightarrow> fwait F (ocptr s) oldval None \<Longrightarrow> once_quiet F s (goto t Sleeping s)"
| interrupted: "pc s t = Sleeping \<Longrightarrow> once_quiet F s (goto t Read s)"
| init_begin: "pc s t = Start_init \<Longrightarrow> once_quiet F s ((goto t Running s)\<lparr>begun := Suc (begun s)\<rparr>)"
| init_end: "pc s t = Running \<Longrightarrow> once_quiet F s ((goto t Release s)\<lparr>ended := Suc (ended s)\<rparr>)"
| wake: "pc s t = Waking \<Longrightarrow> fwake F (sleepers s) INT_MAX W \<Longrightarrow>
    once_quiet F s (goto t Returned (s\<lparr>pc := (\<lambda>u. if u \<in> W \<and> pc s u = Sleeping then Read else pc s u)\<rparr>))"

inductive once_step :: "futex \<Rightarrow> once \<Rightarrow> once \<Rightarrow> bool" for F :: futex where
  access: "once_access (pc s t) (ocptr s) = Some (x, v) \<Longrightarrow> once_step F s ((goto t x s)\<lparr>ocptr := v\<rparr>)"
| quiet: "once_quiet F s s' \<Longrightarrow> once_step F s s'"

lemma once_step_cases [case_names access enter wait_return wait_sleep interrupted init_begin init_end wake]:
  assumes "once_step F s s'"
  obtains (access) t x v where "s' = (goto t x s)\<lparr>ocptr := v\<rparr>" "once_access (pc s t) (ocptr s) = Some (x, v)"
    | (enter) t where "s' = goto t Check s" "pc s t = Outside \<or> pc s t = Returned"
    | (wait_return) t oldval r where "s' = goto t Read s" "pc s t = Wait_for oldval" "fwait F (ocptr s) oldval (Some r)"
    | (wait_sleep) t oldval where "s' = goto t Sleeping s" "pc s t = Wait_for oldval" "fwait F (ocptr s) oldval None"
    | (interrupted) t where "s' = goto t Read s" "pc s t = Sleeping"
    | (init_begin) t where "s' = (goto t Running s)\<lparr>begun := Suc (begun s)\<rparr>" "pc s t = Start_init"
    | (init_end) t where "s' = (goto t Release s)\<lparr>ended := Suc (ended s)\<rparr>" "pc s t = Running"
    | (wake) t W where "s' = goto t Returned (s\<lparr>pc := (\<lambda>u. if u \<in> W \<and> pc s u = Sleeping then Read else pc s u)\<rparr>)"
      "pc s t = Waking" "fwake F (sleepers s) INT_MAX W"
  using assms
proof cases
  case quiet
  then show thesis by cases (use that in blast)+
qed (use access in blast)

inductive once_run :: "futex \<Rightarrow> once \<Rightarrow> once \<Rightarrow> bool" for F :: futex and s0 :: once where
  start: "once_run F s0 s0"
| step: "once_run F s0 s \<Longrightarrow> once_step F s s' \<Longrightarrow> once_run F s0 s'"

definition fresh_once :: once where
  "fresh_once = \<lparr>ocptr = PTHREAD_ONCE_INIT, pc = (\<lambda>_. Outside), begun = 0, ended = 0\<rparr>"

lemma goto_simps [simp]:
  "ocptr (goto t x s) = ocptr s" "begun (goto t x s) = begun s" "ended (goto t x s) = ended s"
  "pc (goto t x s) = (pc s)(t := x)"
  by (simp_all add: goto_def)

section \<open>The invariant\<close>

text \<open>The phases of the one initialisation, as the control word shows them.\<close>

fun initialising :: "once_pc \<Rightarrow> bool" where
  "initialising Start_init = True"
| "initialising Running = True"
| "initialising Release = True"
| "initialising Publish = True"
| "initialising x = False"

text \<open>What a thread's place says about the control word \<open>v\<close> and the counts \<open>b\<close> and \<open>e\<close>.\<close>

fun place_ok :: "cint \<Rightarrow> nat \<Rightarrow> nat \<Rightarrow> once_pc \<Rightarrow> bool" where
  "place_ok v b e (Cas oldval) \<longleftrightarrow> oldval = 0 \<or> oldval = 1 \<and> v \<noteq> 0"
| "place_ok v b e (Wait_for oldval) \<longleftrightarrow> oldval = 1 \<and> v \<noteq> 0"
| "place_ok v b e Sleeping \<longleftrightarrow> v \<noteq> 0"
| "place_ok v b e Start_init \<longleftrightarrow> v = 1 \<and> b = 0 \<and> e = 0"
| "place_ok v b e Running \<longleftrightarrow> v = 1 \<and> b = 1 \<and> e = 0"
| "place_ok v b e Release \<longleftrightarrow> v = 1 \<and> b = 1 \<and> e = 1"
| "place_ok v b e Publish \<longleftrightarrow> v = 1 \<and> b = 1 \<and> e = 1"
| "place_ok v b e Waking \<longleftrightarrow> v = 2"
| "place_ok v b e Acquire \<longleftrightarrow> v = 2"
| "place_ok v b e Returned \<longleftrightarrow> v = 2"
| "place_ok v b e x \<longleftrightarrow> True"

text \<open>The word, the counts and the places of all threads together.\<close>

definition once_ok :: "cint \<Rightarrow> nat \<Rightarrow> nat \<Rightarrow> (cint \<Rightarrow> once_pc) \<Rightarrow> bool" where
  "once_ok v b e p \<longleftrightarrow>
    (v = 0 \<and> b = 0 \<and> e = 0 \<or> v = 1 \<and> (\<exists>t. initialising (p t)) \<or> v = 2 \<and> b = 1 \<and> e = 1) \<and>
    (\<forall>t. place_ok v b e (p t)) \<and> (\<forall>t u. initialising (p t) \<longrightarrow> initialising (p u) \<longrightarrow> t = u)"

abbreviation once_inv :: "once \<Rightarrow> bool" where
  "once_inv s \<equiv> once_ok (ocptr s) (begun s) (ended s) (pc s)"

lemma once_words [simp]:
  "ONCE_COMPLETED = 2" "ONCE_INITIALIZING = 1" "PTHREAD_ONCE_INIT = 0"
  by (simp_all add: ONCE_COMPLETED_def ONCE_INITIALIZING_def PTHREAD_ONCE_INIT_def)

lemma place_ok_counts: "place_ok v b e x \<Longrightarrow> \<not> initialising x \<Longrightarrow> place_ok v b' e' x"
  by (cases x) auto

lemma place_ok_later:
  "place_ok v b e x \<Longrightarrow> \<not> initialising x \<Longrightarrow> v = 0 \<and> v' = 1 \<or> v = 1 \<and> v' = 2 \<Longrightarrow> place_ok v' b' e' x"
  by (cases x) auto

lemma initialising_place: "initialising x \<Longrightarrow> place_ok v b e x \<Longrightarrow> v = 1"
  by (cases x) auto

lemma once_okD:
  assumes "once_ok v b e p"
  shows "place_ok v b e (p t)" "v = 0 \<or> v = 1 \<or> v = 2" "initialising (p t) \<Longrightarrow> initialising (p u) \<Longrightarrow> t = u"
  using assms by (auto simp: once_ok_def)

text \<open>A thread moves and nothing else changes.\<close>

lemma once_ok_goto:
  assumes "once_ok v b e p" "place_ok v b e x" "initialising x \<longleftrightarrow> initialising (p t)"
  shows "once_ok v b e (p(t := x))"
  using assms unfolding once_ok_def by (metis fun_upd_apply)

text \<open>The first thread takes the word; the initialising thread moves on, with the counts or the word.\<close>

lemma once_ok_first:
  assumes "once_ok 0 b e p"
  shows "once_ok 1 b e (p(t := Start_init))"
proof -
  have none: "\<not> initialising (p u)" for u
    using initialising_place [OF _ once_okD(1) [OF assms]] by fastforce
  then have "place_ok 1 b e (p u)" for u
    using once_okD(1) [OF assms, of u] by (auto intro: place_ok_later)
  with none assms show ?thesis by (auto simp: once_ok_def)
qed

lemma once_ok_owner:
  assumes "once_ok 1 b e p" "initialising (p t)" "place_ok v' b' e' x"
    and "v' = 1 \<and> initialising x \<or> v' = 2 \<and> b' = 1 \<and> e' = 1 \<and> \<not> initialising x"
  shows "once_ok v' b' e' (p(t := x))"
proof -
  have others: "\<not> initialising (p u)" "place_ok v' b' e' (p u)" if "u \<noteq> t" for u
  proof -
    show "\<not> initialising (p u)" using once_okD(3) [OF assms(1,2)] that by blast
    with once_okD(1) [OF assms(1), of u] assms(4) show "place_ok v' b' e' (p u)"
      using place_ok_counts place_ok_later by metis
  qed
  with assms(3,4) show ?thesis by (auto simp: once_ok_def)
qed

lemma once_access_inv:
  assumes inv: "once_ok v b e p" and acc: "once_access (p t) v = Some (x, v')"
  shows "once_ok v' b e (p(t := x))"
proof -
  note place = once_okD(1) [OF inv, of t] and v = once_okD(2) [OF inv]
  show ?thesis
  proof (cases "p t")
    case (Cas oldval)
    with acc place once_ok_first [of b e p t] inv show ?thesis
      by (auto simp: Let_def split: if_splits intro: once_ok_goto)
  next
    case Publish
    with acc place once_ok_owner [of b e p t 2 1 1 Waking] inv show ?thesis by auto
  qed (use acc v inv place in \<open>auto split: if_splits intro: once_ok_goto\<close>)
qed

lemma once_quiet_inv: "once_quiet F s s' \<Longrightarrow> once_inv s \<Longrightarrow> once_inv s'"
proof (induction rule: once_quiet.induct)
  case (init_begin s t)
  with once_okD(1) [OF init_begin(2), of t] once_ok_owner [of 0 0 "pc s" t 1 1 0 Running] show ?case
    by (simp add: fun_upd_def)
next
  case (init_end s t)
  with once_okD(1) [OF init_end(2), of t] once_ok_owner [of 1 0 "pc s" t 1 1 1 Release] show ?case
    by (simp add: fun_upd_def)
next
  case (wake s t W)
  let ?p = "\<lambda>u. if u \<in> W \<and> pc s u = Sleeping then Read else pc s u"
  have "initialising (?p u) = initialising (pc s u)" "place_ok v b e (pc s u) \<Longrightarrow> place_ok v b e (?p u)" for u v b e
    by auto
  then have "once_ok (ocptr s) (begun s) (ended s) ?p"
    using wake(3) unfolding once_ok_def by simp
  then have "once_ok (ocptr s) (begun s) (ended s) (?p(t := Returned))"
    by (rule once_ok_goto) (use wake once_okD(1) [OF wake(3), of t] in auto)
  then show ?case by (simp add: fun_upd_def)
next
  case (enter s t)
  with once_ok_goto [OF enter(2), of Check t] show ?case by (auto simp: fun_upd_def)
next
  case (wait_return s t oldval r)
  with once_ok_goto [OF wait_return(3), of Read t] show ?case by (simp add: fun_upd_def)
next
  case (wait_sleep s t oldval)
  with once_ok_goto [OF wait_sleep(3), of Sleeping t] once_okD(1) [OF wait_sleep(3), of t] show ?case by (simp add: fun_upd_def)
next
  case (interrupted s t)
  with once_ok_goto [OF interrupted(2), of Read t] show ?case by (simp add: fun_upd_def)
qed

lemma once_step_inv: "once_step F s s' \<Longrightarrow> once_inv s \<Longrightarrow> once_inv s'"
proof (induction rule: once_step.induct)
  case (access s t x v)
  from once_access_inv [OF access(2,1)] show ?case by (simp add: fun_upd_def)
qed (rule once_quiet_inv)

lemma once_run_inv: "once_run F fresh_once s \<Longrightarrow> once_inv s"
proof (induction rule: once_run.induct)
  case start
  show ?case by (simp add: fresh_once_def once_ok_def)
qed (rule once_step_inv)

section \<open>Initialised once\<close>

text \<open>C17: under any interleaving and for every kernel the initialisation routine is called at most once,
  at most one thread is on its way to it or inside it, and whoever has returned from \<open>pthread_once\<close> has
  returned after the routine has ended.\<close>

theorem once_initialises_once:
  assumes "once_run F fresh_once s"
  shows "begun s \<le> 1 \<and> ended s \<le> begun s \<and>
    (\<forall>t u. initialising (pc s t) \<and> initialising (pc s u) \<longrightarrow> t = u) \<and>
    (\<forall>t. pc s t = Returned \<longrightarrow> ended s = 1)"
proof -
  note inv = once_run_inv [OF assms]
  have "begun s \<le> 1 \<and> ended s \<le> begun s"
  proof (cases "\<exists>t. initialising (pc s t)")
    case True
    then obtain t where "initialising (pc s t)" by blast
    with once_okD(1) [OF inv, of t] show ?thesis by (cases "pc s t") auto
  next
    case False
    with inv show ?thesis by (auto simp: once_ok_def)
  qed
  moreover have "ended s = 1" if "pc s t = Returned" for t
    using once_okD(1) [OF inv, of t] inv that by (auto simp: once_ok_def)
  ultimately show ?thesis using once_okD(3) [OF inv] by blast
qed

section \<open>Waiting for the initialisation\<close>

lemma once_access_word:
  assumes "once_access x v = Some (y, v')" "place_ok v b e x"
  shows "y \<noteq> Sleeping" "y = Waking \<or> x \<noteq> Waking \<and> (v' = 2 \<longrightarrow> v = 2)"
  using assms by (cases x; auto simp: Let_def split: if_splits)+

context full_futex_kernel
begin

lemma sleeper_step:
  assumes "once_step F s s'" "once_inv s" "ocptr s = 2 \<Longrightarrow> pc s t = Sleeping \<Longrightarrow> \<exists>u. pc s u = Waking"
    and "ocptr s' = 2" "pc s' t = Sleeping"
  shows "\<exists>u. pc s' u = Waking"
proof -
  have keep: ?thesis if "ocptr s' = ocptr s" "pc s' = (pc s)(u := x)" "x \<noteq> Sleeping" "pc s u \<noteq> Waking" for u x
  proof -
    from that assms(4,5) have "pc s t = Sleeping" by (auto split: if_splits)
    with assms(3,4) that(1) obtain y where "pc s y = Waking" by auto
    with that(2,4) have "pc s' y = Waking" by auto
    then show ?thesis ..
  qed
  from assms(1) show ?thesis
  proof (cases rule: once_step_cases)
    case (access u x v)
    note w = once_access_word [OF access(2) once_okD(1) [OF assms(2)]]
    show ?thesis
    proof (cases "x = Waking")
      case True
      with access(1) have "pc s' u = Waking" by simp
      then show ?thesis ..
    next
      case False
      with w access(1) assms(4) show ?thesis by (intro keep [of u x]) (auto simp: goto_def)
    qed
  next
    case (wait_sleep u oldval)
    have "ocptr s = oldval" using futex_sleepD [OF sleeps_only_on_match wait_sleep(3)] .
    with wait_sleep once_okD(1) [OF assms(2), of u] assms(4) show ?thesis by simp
  next
    case (wake u W)
    then have "W = sleepers s" using wakes_all by (simp add: futex_wakes_all_def)
    with wake assms(5) show ?thesis by (auto simp: sleepers_def goto_def split: if_splits)
  next
    case (enter u)
    then show ?thesis by (intro keep [of u Check]) auto
  next
    case (wait_return u oldval r)
    then show ?thesis by (intro keep [of u Read]) auto
  next
    case (interrupted u)
    then show ?thesis by (intro keep [of u Read]) auto
  next
    case (init_begin u)
    then show ?thesis by (intro keep [of u Running]) auto
  next
    case (init_end u)
    then show ?thesis by (intro keep [of u Release]) auto
  qed
qed

lemma sleeper_run:
  assumes "once_run F fresh_once s"
  shows "ocptr s = 2 \<Longrightarrow> pc s t = Sleeping \<Longrightarrow> \<exists>u. pc s u = Waking"
  using assms
proof (induction rule: once_run.induct)
  case start
  then show ?case by (simp add: fresh_once_def)
next
  case (step s s')
  then show ?case using sleeper_step [OF step(2) once_run_inv [OF step(1)]] by metis
qed

end

text \<open>C19: no thread sleeps in \<open>pthread_once\<close> for ever for want of a wake-up: as long as one sleeps, some
  thread is still to finish the initialisation or is about to wake all sleepers.\<close>

theorem once_no_lost_wakeup:
  assumes "futex_sleeps_only_on_match F" "futex_wakes_someone F" "futex_wakes_all F"
    and "once_run F fresh_once s" "pc s t = Sleeping"
  shows "\<exists>u. initialising (pc s u) \<or> pc s u = Waking"
proof -
  note inv = once_run_inv [OF assms(4)]
  have "full_futex_kernel F"
    using assms(1-3) by (simp add: full_futex_kernel_def full_futex_kernel_axioms_def futex_kernel_def)
  from full_futex_kernel.sleeper_run [OF this assms(4) _ assms(5)] inv once_okD(1) [OF inv, of t] assms(5)
  show ?thesis by (auto simp: once_ok_def)
qed

text \<open>How many steps of its own a thread still needs once the initialisation is complete.\<close>

fun once_rank :: "once_pc \<Rightarrow> nat" where
  "once_rank Check = 2"
| "once_rank Read = 2"
| "once_rank Acquire = 1"
| "once_rank Waking = 1"
| "once_rank (Cas oldval) = 3"
| "once_rank (Wait_for oldval) = 3"
| "once_rank Sleeping = 3"
| "once_rank x = 0"

text \<open>C20: once the initialisation is complete every call of \<open>pthread_once\<close> ends: the word keeps its value,
  nobody goes to sleep any more, and each step a thread takes inside a call brings it nearer to the return,
  which is at most three steps away.\<close>

theorem once_calls_end:
  assumes "futex_sleeps_only_on_match F" "once_run F fresh_once s" "ocptr s = ONCE_COMPLETED"
    and "once_step F s s'" "pc s' t \<noteq> pc s t" "pc s t \<noteq> Outside" "pc s t \<noteq> Returned"
  shows "ocptr s' = ONCE_COMPLETED \<and> once_rank (pc s' t) < once_rank (pc s t) \<and> once_rank (pc s t) \<le> 3 \<and>
    (once_rank (pc s' t) = 0 \<longrightarrow> pc s' t = Returned)"
proof -
  note inv = once_run_inv [OF assms(2)]
  have place: "place_ok 2 (begun s) (ended s) (pc s u)" for u
    using once_okD(1) [OF inv, of u] assms(3) by simp
  from assms(4) show ?thesis
  proof (cases rule: once_step_cases)
    case (access u x v)
    with assms(3,5) place [of u] show ?thesis
      by (cases "pc s u") (auto simp: Let_def split: if_splits)
  next
    case (wait_sleep u oldval)
    with assms(3) futex_sleepD [OF assms(1) wait_sleep(3)] place [of u] show ?thesis by simp
  next
    case (wake u W)
    with assms(3,5) show ?thesis by (auto split: if_splits)
  qed (use assms(3,5-7) place [of t] in \<open>auto split: if_splits\<close>)
qed


section \<open>Concrete runs\<close>

text \<open>One step of thread \<open>t\<close> with the kernel \<open>linux_futex\<close>, and a schedule of such steps.\<close>

definition once_next :: "cint \<Rightarrow> once \<Rightarrow> once option" where
  "once_next t s =
    (case pc s t of
       Outside \<Rightarrow> Some (goto t Check s)
     | Returned \<Rightarrow> Some (goto t Check s)
     | Wait_for oldval \<Rightarrow> Some (goto t (if ocptr s = oldval then Sleeping else Read) s)
     | Sleeping \<Rightarrow> None
     | Start_init \<Rightarrow> Some ((goto t Running s)\<lparr>begun := Suc (begun s)\<rparr>)
     | Running \<Rightarrow> Some ((goto t Release s)\<lparr>ended := Suc (ended s)\<rparr>)
     | Waking \<Rightarrow> Some (goto t Returned (s\<lparr>pc := (\<lambda>u. if u \<in> sleepers s \<and> pc s u = Sleeping then Read else pc s u)\<rparr>))
     | x \<Rightarrow> (case once_access x (ocptr s) of Some (y, v) \<Rightarrow> Some ((goto t y s)\<lparr>ocptr := v\<rparr>) | None \<Rightarrow> None))"

fun once_plays :: "cint list \<Rightarrow> once \<Rightarrow> once option" where
  "once_plays [] s = Some s"
| "once_plays (t # ts) s = (case once_next t s of Some s' \<Rightarrow> once_plays ts s' | None \<Rightarrow> None)"

lemma once_next_quiet:
  assumes "once_next t s = Some s'" "once_access (pc s t) (ocptr s) = None"
  shows "once_quiet linux_futex s s'"
proof (cases "pc s t")
  case (Wait_for v)
  with assms show ?thesis
    by (cases "ocptr s = v")
       (auto simp: once_next_def linux_futex_def intro!: once_quiet.wait_return once_quiet.wait_sleep)
next
  case Waking
  have "fwake linux_futex (sleepers s) INT_MAX (sleepers s)" by (simp add: linux_futex_def INT_MAX_def)
  with Waking assms once_quiet.wake [of s t linux_futex "sleepers s"] show ?thesis by (simp add: once_next_def)
qed (use assms in \<open>auto simp: once_next_def Let_def intro!: once_quiet.enter once_quiet.init_begin
    once_quiet.init_end split: if_splits\<close>)

lemma once_next_sound:
  assumes "once_next t s = Some s'"
  shows "once_step linux_futex s s'"
proof (cases "once_access (pc s t) (ocptr s)")
  case None
  with assms once_next_quiet show ?thesis by (blast intro: once_step.quiet)
next
  case (Some r)
  then obtain x v where acc: "once_access (pc s t) (ocptr s) = Some (x, v)" by (cases r) auto
  then have "once_next t s = Some ((goto t x s)\<lparr>ocptr := v\<rparr>)" by (cases "pc s t") (auto simp: once_next_def)
  with once_step.access [OF acc] assms show ?thesis by simp
qed

lemma once_plays_sound: "once_plays ts s = Some s' \<Longrightarrow> once_run linux_futex s0 s \<Longrightarrow> once_run linux_futex s0 s'"
  by (induction ts arbitrary: s) (auto split: option.splits dest!: once_next_sound, blast intro: once_run.step)

lemma once_plays_run:
  assumes "\<exists>s. once_plays ts fresh_once = Some s \<and> Q s"
  obtains s where "once_run linux_futex fresh_once s" "Q s"
  using assms once_plays_sound [OF _ once_run.start] by metis

lemmas once_eval = once_next_def fresh_once_def goto_def sleepers_def Let_def

text \<open>Thread 1 starts the initialisation and thread 2 falls asleep; then thread 1 finishes and returns, and
  thread 2 follows.\<close>

definition once_first :: "cint list" where
  "once_first = [1, 1, 1, 1, 1, 2, 2, 2, 2, 2]"

lemma once_first_run: "\<exists>s. once_plays once_first fresh_once = Some s \<and> pc s 2 = Sleeping"
  by (simp add: once_first_def once_eval)

lemma once_all_run:
  "\<exists>s. once_plays (once_first @ [1, 1, 1, 1, 2, 2]) fresh_once = Some s \<and> pc s 1 = Returned \<and> pc s 2 = Returned"
  by (simp add: once_first_def once_eval)

lemma once_initialises_once_witness:
  "\<exists>s. once_run linux_futex fresh_once s \<and> pc s 2 = Returned \<and> begun s \<le> 1 \<and> ended s = 1"
proof -
  obtain s where "once_run linux_futex fresh_once s" "pc s 2 = Returned"
    using once_all_run by (rule once_plays_run) blast
  with once_initialises_once [of linux_futex s] show ?thesis by blast
qed

lemma once_no_lost_wakeup_witness:
  "\<exists>s u. once_run linux_futex fresh_once s \<and> pc s 2 = Sleeping \<and> (initialising (pc s u) \<or> pc s u = Waking)"
proof -
  obtain s where "once_run linux_futex fresh_once s" "pc s 2 = Sleeping"
    using once_first_run by (rule once_plays_run) blast
  with once_no_lost_wakeup [OF linux.sleeps_only_on_match linux.wakes_someone linux.wakes_all] show ?thesis by blast
qed

lemma once_published_run:
  "\<exists>s. once_plays (once_first @ [1, 1, 1, 1]) fresh_once = Some s \<and> ocptr s = ONCE_COMPLETED \<and> pc s 2 = Read"
  by (simp add: once_first_def once_eval)

lemma once_calls_end_witness:
  "\<exists>s s'. once_run linux_futex fresh_once s \<and> once_step linux_futex s s' \<and> pc s 2 = Read \<and>
    once_rank (pc s' 2) < once_rank (pc s 2)"
proof -
  obtain s where s: "once_run linux_futex fresh_once s" "ocptr s = ONCE_COMPLETED" "pc s 2 = Read"
    using once_published_run by (rule once_plays_run) blast
  let ?s = "(goto 2 Acquire s)\<lparr>ocptr := 2\<rparr>"
  have "once_next 2 s = Some ?s" using s by (simp add: once_next_def)
  then have st: "once_step linux_futex s ?s" by (rule once_next_sound)
  have "ocptr ?s = ONCE_COMPLETED \<and> once_rank (pc ?s 2) < once_rank (pc s 2) \<and> once_rank (pc s 2) \<le> 3 \<and>
      (once_rank (pc ?s 2) = 0 \<longrightarrow> pc ?s 2 = Returned)"
    by (rule once_calls_end [OF linux.sleeps_only_on_match s(1,2) st]) (use s(3) in simp_all)
  with s st show ?thesis by blast
qed

end
