(* ===== verification/Once_Memory.thy ===== *)
theory Once_Memory
  imports Once Views
begin

text \<open>
  The barriers of \<open>pthread_once\<close>: the machine of theory \<open>Once\<close> with the views of theory \<open>Views\<close>. The data are what
  the initialisation routine writes; whoever has returned from \<open>pthread_once\<close> must not read anything older.
\<close>

section \<open>The machine\<close>

record wonce = views +
  ctl :: once

text \<open>What an access to the control word, or a barrier, does to the views.\<close>

fun once_see :: "cint \<Rightarrow> once_pc \<Rightarrow> wonce \<Rightarrow> wonce" where
  "once_see t Check w = read_word t (newest t w)"
| "once_see t Read w = read_word t (newest t w)"
| "once_see t (Cas oldval) w =
    (if ocptr (ctl w) = oldval then replace_word t (push_word t (ocptr (ctl w)) w) else read_word t (newest t w))"
| "once_see t Release w = ANDROID_MEMBAR_FULL t w"
| "once_see t Publish w = store_word t (push_word t (ocptr (ctl w)) w)"
| "once_see t Acquire w = ANDROID_MEMBAR_FULL t w"
| "once_see t x w = w"

text \<open>The accesses that can use an old value of the control word: the reads, and a compare-and-swap that fails on it.\<close>

fun once_stale :: "once_pc \<Rightarrow> cint \<Rightarrow> once_pc option" where
  "once_stale Check v = map_option fst (once_access Check v)"
| "once_stale Read v = map_option fst (once_access Read v)"
| "once_stale (Cas oldval) v = (if v = oldval then None else map_option fst (once_access (Cas oldval) v))"
| "once_stale x v = None"

inductive weak_once :: "futex \<Rightarrow> wonce \<Rightarrow> wonce \<Rightarrow> bool" for F :: futex where
  access: "once_access (pc (ctl w) t) (ocptr (ctl w)) = Some (x, v) \<Longrightarrow>
    weak_once F w ((once_see t (pc (ctl w) t) w)\<lparr>ctl := (goto t x (ctl w))\<lparr>ocptr := v\<rparr>\<rparr>)"
| stale: "may_load w t i \<Longrightarrow> once_stale (pc (ctl w) t) (fst (past w ! i)) = Some x \<Longrightarrow>
    weak_once F w ((read_past t i w)\<lparr>ctl := goto t x (ctl w)\<rparr>)"
| quiet: "once_quiet F (ctl w) s \<Longrightarrow> weak_once F w (w\<lparr>ctl := s\<rparr>)"
| init_write: "pc (ctl w) t = Running \<Longrightarrow> weak_once F w (write_data t y v w)"
| data_read: "may_see w t y i \<Longrightarrow> weak_once F w (read_data t i w)"

inductive weak_once_run :: "futex \<Rightarrow> wonce \<Rightarrow> wonce \<Rightarrow> bool" for F :: futex and w0 :: wonce where
  start: "weak_once_run F w0 w0"
| step: "weak_once_run F w0 w \<Longrightarrow> weak_once F w w' \<Longrightarrow> weak_once_run F w0 w'"

definition fresh_wonce :: wonce where
  "fresh_wonce = fresh_views \<lparr>ctl = fresh_once\<rparr>"

section \<open>The invariant\<close>

text \<open>What a thread has in view, by where it is.\<close>

fun place_view :: "cint \<Rightarrow> 'a views_scheme \<Rightarrow> once_pc \<Rightarrow> bool" where
  "place_view t w Running \<longleftrightarrow> complete w (cur w t)"
| "place_view t w Release \<longleftrightarrow> complete w (cur w t)"
| "place_view t w Publish \<longleftrightarrow> complete w (cur w t) \<and> complete w (rel w t)"
| "place_view t w Waking \<longleftrightarrow> complete w (cur w t)"
| "place_view t w Acquire \<longleftrightarrow> complete w (acq w t)"
| "place_view t w Returned \<longleftrightarrow> complete w (cur w t)"
| "place_view t w x \<longleftrightarrow> True"

text \<open>The old values of the control word: completion is the last one.\<close>

definition past_words :: "wonce \<Rightarrow> bool" where
  "past_words w \<longleftrightarrow> (\<forall>(v, X)\<in>set (past w). v = 0 \<or> v = 1 \<and> ocptr (ctl w) \<noteq> 0)"

definition wonce_inv :: "wonce \<Rightarrow> bool" where
  "wonce_inv w \<longleftrightarrow> once_inv (ctl w) \<and> (begun (ctl w) = 0 \<longrightarrow> hist w = []) \<and>
    (ocptr (ctl w) = 2 \<longrightarrow> complete w (msg w)) \<and> (\<forall>t. place_view t w (pc (ctl w) t)) \<and> past_words w"

lemma place_view_mono:
  assumes "place_view t w x" "hist w' = hist w" "cur w t \<subseteq> cur w' t" "acq w t \<subseteq> acq w' t" "rel w t \<subseteq> rel w' t"
  shows "place_view t w' x"
  using assms by (cases x) auto

lemma once_see_hist [simp]: "hist (once_see t x w) = hist w"
  by (cases x) (simp_all add: word_defs)

lemma once_see_other:
  "u \<noteq> t \<Longrightarrow> cur (once_see t x w) u = cur w u" "u \<noteq> t \<Longrightarrow> acq (once_see t x w) u = acq w u"
  "u \<noteq> t \<Longrightarrow> rel (once_see t x w) u = rel w u"
  by (cases x; simp add: word_defs)+

text \<open>The thread that makes the access, and the word.\<close>

lemma once_see_own:
  assumes inv: "wonce_inv w" and acc: "once_access (pc (ctl w) t) (ocptr (ctl w)) = Some (x, v)"
  shows "place_view t (once_see t (pc (ctl w) t) w) x"
    "v = 2 \<Longrightarrow> complete w (msg (once_see t (pc (ctl w) t) w))"
proof -
  have once: "once_inv (ctl w)" and msg: "ocptr (ctl w) = 2 \<Longrightarrow> complete w (msg w)"
    and view: "place_view t w (pc (ctl w) t)" using inv by (simp_all add: wonce_inv_def)
  note place = once_okD(1) [OF once, of t] and word = once_okD(2) [OF once]
  show "place_view t (once_see t (pc (ctl w) t) w) x"
    by (cases "pc (ctl w) t") (use acc place word msg view in \<open>auto simp: word_defs Let_def split: if_splits\<close>)
  show "complete w (msg (once_see t (pc (ctl w) t) w))" if "v = 2"
    by (cases "pc (ctl w) t") (use that acc place word msg view in \<open>auto simp: word_defs Let_def split: if_splits\<close>)
qed

lemma once_see_past:
  assumes inv: "wonce_inv w" and acc: "once_access (pc (ctl w) t) (ocptr (ctl w)) = Some (x, v)"
  shows "past_words ((once_see t (pc (ctl w) t) w)\<lparr>ctl := (goto t x (ctl w))\<lparr>ocptr := v\<rparr>\<rparr>)"
proof -
  have once: "once_inv (ctl w)" "past_words w" using inv by (simp_all add: wonce_inv_def)
  show ?thesis
    by (cases "pc (ctl w) t") (use acc once_okD(1) [OF once(1), of t] once_okD(2) [OF once(1)] once(2) in
      \<open>auto simp: past_words_def word_defs order_defs Let_def split: if_splits\<close>)
qed

lemma weak_once_access:
  assumes inv: "wonce_inv w" and acc: "once_access (pc (ctl w) t) (ocptr (ctl w)) = Some (x, v)"
  shows "wonce_inv ((once_see t (pc (ctl w) t) w)\<lparr>ctl := (goto t x (ctl w))\<lparr>ocptr := v\<rparr>\<rparr>)" (is "wonce_inv ?w")
proof -
  note own = once_see_own [OF assms]
  have "once_inv (ctl ?w)"
    using once_access_inv [of "ocptr (ctl w)" "begun (ctl w)" "ended (ctl w)" "pc (ctl w)" t x v] acc inv
    by (simp add: wonce_inv_def fun_upd_def)
  moreover have "place_view u ?w (pc (ctl ?w) u)" for u
  proof (cases "u = t")
    case True
    have "place_view t ?w x" by (rule place_view_mono [OF own(1)]) simp_all
    with True show ?thesis by simp
  next
    case False
    have "place_view u w (pc (ctl w) u)" using inv by (simp add: wonce_inv_def)
    then have "place_view u ?w (pc (ctl w) u)"
      by (rule place_view_mono) (simp_all add: once_see_other [OF False])
    with False show ?thesis by simp
  qed
  ultimately show ?thesis using inv own(2) once_see_past [OF assms] by (simp add: wonce_inv_def)
qed

lemma weak_once_quiet:
  assumes "once_quiet F (ctl w) s" "wonce_inv w"
  shows "wonce_inv (w\<lparr>ctl := s\<rparr>)"
proof -
  have once: "once_inv (ctl w)" "once_inv s" using assms once_quiet_inv [OF assms(1)] by (simp_all add: wonce_inv_def)
  have view: "place_view u w (pc (ctl w) u)" for u using assms(2) by (simp add: wonce_inv_def)
  have same: "place_view u (w\<lparr>ctl := s\<rparr>) x = place_view u w x" for u x by (cases x) simp_all
  have hist: "begun (ctl w) = 0 \<Longrightarrow> hist w = []" using assms(2) by (simp add: wonce_inv_def)
  have "place_view u w (pc s u)" for u
    using assms(1)
  proof cases
    case (init_begin t)
    with once_okD(1) [OF once(1), of t] hist view [of u] show ?thesis by (auto split: if_splits)
  next
    case (init_end t)
    with view [of u] show ?thesis by (auto split: if_splits)
  next
    case (wake t W)
    with view [of u] show ?thesis by (auto split: if_splits)
  qed (use view [of u] in \<open>auto split: if_splits\<close>)
  moreover have "ocptr s = ocptr (ctl w)" "begun s = 0 \<Longrightarrow> begun (ctl w) = 0" using assms(1) by (cases; simp)+
  ultimately show ?thesis using once(2) assms(2) by (simp add: wonce_inv_def past_words_def same)
qed

text \<open>An old value sends a thread to a place it could have gone to before.\<close>

lemma weak_once_stale:
  assumes "may_load w t i" "once_stale (pc (ctl w) t) (fst (past w ! i)) = Some x" "wonce_inv w"
  shows "wonce_inv ((read_past t i w)\<lparr>ctl := goto t x (ctl w)\<rparr>)" (is "wonce_inv ?w")
proof -
  have once: "once_inv (ctl w)" "past_words w" using assms(3) by (simp_all add: wonce_inv_def)
  have "past w ! i \<in> set (past w)" using assms(1) by simp
  with once(2) have v: "fst (past w ! i) = 0 \<or> fst (past w ! i) = 1 \<and> ocptr (ctl w) \<noteq> 0"
    unfolding past_words_def by fastforce
  have x: "x = Read \<or> (\<exists>oldval. x = Cas oldval)" "\<not> initialising (pc (ctl w) t)"
    "place_ok (ocptr (ctl w)) (begun (ctl w)) (ended (ctl w)) x"
    using assms(2) v by (cases "pc (ctl w) t"; auto simp: Let_def split: if_splits)+
  with once(1) have "once_inv (ctl ?w)" by (auto intro: once_ok_goto)
  moreover have "place_view u ?w (pc (ctl ?w) u)" for u
  proof (cases "u = t")
    case False
    have "place_view u w (pc (ctl w) u)" using assms(3) by (simp add: wonce_inv_def)
    then have "place_view u ?w (pc (ctl w) u)" by (rule place_view_mono) (simp_all add: acq_read_past)
    with False show ?thesis by simp
  qed (use x(1) in auto)
  ultimately show ?thesis using assms(3) by (simp add: wonce_inv_def past_words_def)
qed

lemma weak_once_inv:
  assumes "weak_once F w w'" "wonce_inv w"
  shows "wonce_inv w'"
  using assms(1)
proof cases
  case (init_write t y v)
  have once: "once_inv (ctl w)" using assms(2) by (simp add: wonce_inv_def)
  note place = once_okD(1) [OF once, of t]
  have "place_view u w' (pc (ctl w) u)" for u
  proof (cases "u = t")
    case True
    have "place_view t w (pc (ctl w) t)" using assms(2) by (simp add: wonce_inv_def)
    with True init_write show ?thesis by (auto simp: write_data_def lessThan_Suc)
  next
    case False
    with once_okD(3) [OF once, of t u] init_write(2) have "\<not> initialising (pc (ctl w) u)" by auto
    with once_okD(1) [OF once, of u] place init_write(2) show ?thesis by (cases "pc (ctl w) u") auto
  qed
  with place init_write(2) once show ?thesis
    using assms(2) by (simp add: wonce_inv_def past_words_def init_write(1) write_data_def)
next
  case (data_read t y i)
  have "place_view u w' (pc (ctl w) u)" for u
  proof -
    have "place_view u w (pc (ctl w) u)" using assms(2) by (simp add: wonce_inv_def)
    then show ?thesis by (rule place_view_mono) (auto simp: data_read(1) read_data_def)
  qed
  with assms(2) show ?thesis by (simp add: wonce_inv_def past_words_def data_read(1) read_data_def)
qed (use assms(2) weak_once_access weak_once_stale weak_once_quiet in blast)+

lemma weak_once_run_inv: "weak_once_run F fresh_wonce w \<Longrightarrow> wonce_inv w"
proof (induction rule: weak_once_run.induct)
  case start
  show ?case by (simp add: wonce_inv_def past_words_def fresh_wonce_def fresh_views_def fresh_once_def once_ok_def)
qed (rule weak_once_inv)

section \<open>What the callers read\<close>

text \<open>C18: \<open>pthread_once\<close> makes the initialisation visible also on a processor that reorders memory accesses: under
  any interleaving, with stale reads of the control word, and for every kernel, a thread that has returned from it reads exactly the last values the
  initialisation routine has written.\<close>

theorem once_publishes:
  assumes "weak_once_run F fresh_wonce w" "pc (ctl w) t = Returned"
  shows "may_read w t x v \<longleftrightarrow> v = last_value (hist w) x"
proof (rule complete_reads)
  have "place_view t w (pc (ctl w) t)" using weak_once_run_inv [OF assms(1)] by (simp add: wonce_inv_def)
  with assms(2) show "complete w (cur w t)" by simp
qed

section \<open>A run\<close>

datatype once_event = Step cint | Stale_step cint nat | Init_write cint addr cint

definition weak_once_next :: "once_event \<Rightarrow> wonce \<Rightarrow> wonce option" where
  "weak_once_next e w =
    (case e of
       Step t \<Rightarrow> (case once_access (pc (ctl w) t) (ocptr (ctl w)) of
           Some (x, v) \<Rightarrow> Some ((once_see t (pc (ctl w) t) w)\<lparr>ctl := (goto t x (ctl w))\<lparr>ocptr := v\<rparr>\<rparr>)
         | None \<Rightarrow> (case once_next t (ctl w) of Some s \<Rightarrow> Some (w\<lparr>ctl := s\<rparr>) | None \<Rightarrow> None))
     | Stale_step t i \<Rightarrow> if may_load w t i then
           (case once_stale (pc (ctl w) t) (fst (past w ! i)) of
              Some x \<Rightarrow> Some ((read_past t i w)\<lparr>ctl := goto t x (ctl w)\<rparr>) | None \<Rightarrow> None)
         else None
     | Init_write t y v \<Rightarrow> (case pc (ctl w) t of Running \<Rightarrow> Some (write_data t y v w) | _ \<Rightarrow> None))"

fun weak_once_plays :: "once_event list \<Rightarrow> wonce \<Rightarrow> wonce option" where
  "weak_once_plays [] w = Some w"
| "weak_once_plays (e # es) w = (case weak_once_next e w of Some w' \<Rightarrow> weak_once_plays es w' | None \<Rightarrow> None)"

lemma weak_once_next_sound: "weak_once_next e w = Some w' \<Longrightarrow> weak_once linux_futex w w'"
  by (auto simp: weak_once_next_def split: once_event.splits option.splits once_pc.splits if_splits
      intro: weak_once.intros once_next_quiet)

lemma weak_once_plays_sound:
  "weak_once_plays es w = Some w' \<Longrightarrow> weak_once_run linux_futex w0 w \<Longrightarrow> weak_once_run linux_futex w0 w'"
  by (induction es arbitrary: w)
     (auto split: option.splits dest!: weak_once_next_sound, blast intro: weak_once_run.step)

text \<open>Thread 1 runs the initialisation, which writes 5; then thread 2 calls \<open>pthread_once\<close>. Its first read still finds the
  initial word.\<close>

lemma once_publishes_run:
  "\<exists>w. weak_once_plays (map Step [1, 1, 1, 1, 1] @ [Init_write 1 8192 5] @ map Step [1, 1, 1, 2] @
      [Stale_step 2 0] @ map Step [2, 2]) fresh_wonce = Some w \<and>
    pc (ctl w) 2 = Returned \<and> hist w = [(8192, 5)]"
  by (simp add: weak_once_next_def once_eval fresh_wonce_def fresh_views_def write_data_def word_defs order_defs)

lemma once_publishes_witness:
  "\<exists>w. weak_once_run linux_futex fresh_wonce w \<and> pc (ctl w) 2 = Returned \<and> hist w = [(8192, 5)] \<and>
    (\<forall>v. may_read w 2 8192 v \<longleftrightarrow> v = 5)"
proof -
  obtain w where w: "weak_once_run linux_futex fresh_wonce w" "pc (ctl w) 2 = Returned" "hist w = [(8192, 5)]"
    using once_publishes_run weak_once_plays_sound [OF _ weak_once_run.start] by metis
  with once_publishes [OF w(1,2), of 8192] show ?thesis by (auto simp: last_value_def)
qed

end
