(* ===== verification/Statics.thy ===== *)
theory Statics
  imports Mutex_Calls
begin

text \<open>
  Mutexes that are never initialised by a call: the static initialisers of \<^verbatim>\<open>include/pthread.h\<close>, and the locks
  the C library declares with the macros of \<^verbatim>\<open>private/thread_private.h\<close>.
\<close>

section \<open>The macros\<close>

definition PTHREAD_MUTEX_INIT_VALUE :: cint where "PTHREAD_MUTEX_INIT_VALUE = 0"
definition PTHREAD_RECURSIVE_MUTEX_INIT_VALUE :: cint where "PTHREAD_RECURSIVE_MUTEX_INIT_VALUE = 0x4000"
definition PTHREAD_ERRORCHECK_MUTEX_INIT_VALUE :: cint where "PTHREAD_ERRORCHECK_MUTEX_INIT_VALUE = 0x8000"

record thread_private_tag =
  private_lock :: cint
  private_key :: cint

definition THREAD_PRIVATE_MUTEX :: thread_private_tag where
  "THREAD_PRIVATE_MUTEX = \<lparr>private_lock = PTHREAD_MUTEX_INIT_VALUE, private_key = - 1\<rparr>"

text \<open>The lock is the first member of the structure: its address is that of the tag.\<close>

definition THREAD_PRIVATE_MUTEX_LOCK :: "addr \<Rightarrow> prog" where
  "THREAD_PRIVATE_MUTEX_LOCK tag = pthread_mutex_lock tag"

definition THREAD_PRIVATE_MUTEX_UNLOCK :: "addr \<Rightarrow> prog" where
  "THREAD_PRIVATE_MUTEX_UNLOCK tag = pthread_mutex_unlock tag"

section \<open>They agree with the calls\<close>

text \<open>The initialiser for each kind of mutex.\<close>

fun initialiser :: "mkind \<Rightarrow> cint" where
  "initialiser Normal = PTHREAD_MUTEX_INIT_VALUE"
| "initialiser Recursive = PTHREAD_RECURSIVE_MUTEX_INIT_VALUE"
| "initialiser Errorcheck = PTHREAD_ERRORCHECK_MUTEX_INIT_VALUE"

lemma initialiser_free: "initialiser k = encode \<lparr>a_kind = k, a_shared = False, a_hold = Free\<rparr>"
  by (cases k) (simp_all add: PTHREAD_MUTEX_INIT_VALUE_def PTHREAD_RECURSIVE_MUTEX_INIT_VALUE_def
      PTHREAD_ERRORCHECK_MUTEX_INIT_VALUE_def encode_def enc_def shbit_def)

text \<open>A statically initialised mutex is the mutex \<open>pthread_mutex_init\<close> makes from an attribute object of
  the same kind, not shared: the calls write the initialiser's value.\<close>

theorem static_initialisers:
  assumes "m \<noteq> NULL" "attr \<noteq> NULL"
  shows "\<exists>w'. run_calls E [pthread_mutexattr_init attr, pthread_mutexattr_settype attr (kind_code k),
      pthread_mutexattr_setpshared attr (shared_code False), pthread_mutex_init m attr] w = Some ([0, 0, 0, 0], w') \<and>
    mem w' m = initialiser k"
  using init_from_attributes [OF assms, of E k False w] by (simp add: initialiser_free)

text \<open>The private locks of the C library can be taken and released at once.\<close>

lemma thread_private_lock_unlock:
  assumes "tag \<noteq> NULL" "mem w tag = private_lock THREAD_PRIVATE_MUTEX"
  shows "run_calls E [THREAD_PRIVATE_MUTEX_LOCK tag, THREAD_PRIVATE_MUTEX_UNLOCK tag] w = Some ([0, 0], w)"
proof -
  have w: "mem w tag = enc 0 0 0 0 0"
    using assms(2) by (simp add: THREAD_PRIVATE_MUTEX_def PTHREAD_MUTEX_INIT_VALUE_def enc_def)
  have l: "exec E 16 (pthread_mutex_lock tag) w = Finished 0 (set_mutex w tag (enc 0 0 0 0 1))"
    using exec_more_fuel [of E 12 "pthread_mutex_lock tag" w _ 4] exec_lock_normal [OF assms(1) w, of E] by simp
  have u: "exec E 16 (pthread_mutex_unlock tag) (set_mutex w tag (enc 0 0 0 0 1)) = Finished 0 w"
    using exec_more_fuel [of E 8 "pthread_mutex_unlock tag" "set_mutex w tag (enc 0 0 0 0 1)" _ 8]
      exec_unlock_normal [OF assms(1), of "set_mutex w tag (enc 0 0 0 0 1)" 0 1 E] w
    by (simp add: set_mutex_same)
  show ?thesis by (simp add: THREAD_PRIVATE_MUTEX_LOCK_def THREAD_PRIVATE_MUTEX_UNLOCK_def l u del: One_nat_def)
qed

lemma static_initialisers_witness:
  "\<exists>w'. run_calls (quiet_env 7) [pthread_mutexattr_init 4096, pthread_mutexattr_settype 4096 (kind_code Errorcheck),
      pthread_mutexattr_setpshared 4096 (shared_code False), pthread_mutex_init 8192 4096] (one_word 4096 99) =
      Some ([0, 0, 0, 0], w') \<and> mem w' 8192 = PTHREAD_ERRORCHECK_MUTEX_INIT_VALUE"
  using static_initialisers [of 8192 4096 "quiet_env 7" Errorcheck "one_word 4096 99"] by simp

end
