(* ===== verification/Mutex_Timed.thy ===== *)
theory Mutex_Timed
  imports Mutex_Spec Timespec
begin


section \<open>Time\<close>







section \<open>The rounds\<close>







section \<open>The call\<close>








end
