(* ===== verification/Thread_Exit.thy ===== *)
theory Thread_Exit
  imports Prelude
begin

text \<open>
  Cleanup handlers and the end of a thread: \<open>__pthread_cleanup_push\<close>, \<open>__pthread_cleanup_pop\<close>, \<open>pthread_exit\<close> and
  the thread-id accessors of \<^verbatim>\<open>libp4hread/bionic/pthread.c\<close> (text under \<^verbatim>\<open>#if 0\<close>, with the structures of
  \<^verbatim>\<open>pthread.h\<close> and \<^verbatim>\<open>pthread_internal.h\<close>). The handlers form a linked list through the callers' stack frames,
  which is kept as a heap here. Functions behind pointers, TLS destructors and the thread list are not in
  the file: they are parameters, and the calls made to them are logged.
\<close>

section \<open>Structures\<close>

record cleanup =
  cleanup_prev :: addr
  cleanup_routine :: addr
  cleanup_arg :: addr

text \<open>\<open>pthread_internal_t\<close>, with the members of its \<open>pthread_attr_t\<close> in place.\<close>

record pthread_internal =
  next_thread :: addr
  prev_thread :: addr
  attr_flags :: cint
  attr_stack_base :: addr
  attr_stack_size :: cint
  attr_guard_size :: cint
  attr_sched_policy :: cint
  attr_sched_priority :: cint
  tid :: cint
  allocated_on_heap :: bool
  join_cond :: cint
  return_value :: addr
  internal_flags :: cint
  cleanup_stack :: addr
  tls :: addr
  alternate_signal_stack :: addr
  dlerror_buffer :: string

definition PTHREAD_ATTR_FLAG_DETACHED :: cint where "PTHREAD_ATTR_FLAG_DETACHED = 0x00000001"
definition PTHREAD_ATTR_FLAG_USER_STACK :: cint where "PTHREAD_ATTR_FLAG_USER_STACK = 0x00000002"
definition PTHREAD_ATTR_FLAG_JOINED :: cint where "PTHREAD_ATTR_FLAG_JOINED = 0x00000004"
definition PTHREAD_ATTR_FLAG_ZOMBIE :: cint where "PTHREAD_ATTR_FLAG_ZOMBIE = 0x00000008"

text \<open>The calls out of the file, in the order they are made.\<close>

datatype action =
    Called addr addr                     \<comment> \<open>a handler with its argument\<close>
  | Keys_cleaned                         \<comment> \<open>\<open>pthread_key_clean_all()\<close>\<close>
  | Altstack_disabled                    \<comment> \<open>\<open>sigaltstack(&ss, NULL)\<close> with \<open>SS_DISABLE\<close>\<close>
  | Unmapped addr cint                   \<comment> \<open>\<open>munmap\<close>\<close>
  | List_locked                          \<comment> \<open>\<open>pthread_mutex_lock(&gThreadListLock)\<close>\<close>
  | Thread_removed                       \<comment> \<open>\<open>_pthread_internal_remove_locked(thread)\<close>\<close>
  | Joiner_signalled                     \<comment> \<open>\<open>pthread_cond_signal(&thread->join_cond)\<close>\<close>
  | List_unlocked
  | Signals_blocked                      \<comment> \<open>\<open>sigprocmask\<close>, all but \<open>SIGSEGV\<close>\<close>
  | Thread_exited addr                   \<comment> \<open>\<open>_exit_thread(retval)\<close>\<close>
  | Stack_torn_down addr cint addr       \<comment> \<open>\<open>_exit_with_stack_teardown(base, size, retval)\<close>\<close>

text \<open>The calling thread's own structure, the cleanup frames, and the log.\<close>

record proc =
  thread :: pthread_internal
  frames :: "addr \<Rightarrow> cleanup"
  log :: "action list"

record exit_env =
  routines :: "addr \<Rightarrow> addr \<Rightarrow> proc \<Rightarrow> proc"
  clean_keys :: "proc \<Rightarrow> proc"
  SIGSTKSZ :: cint

definition logged :: "action \<Rightarrow> proc \<Rightarrow> proc" where
  "logged x s = s\<lparr>log := log s @ [x]\<rparr>"

definition upd_thread :: "(pthread_internal \<Rightarrow> pthread_internal) \<Rightarrow> proc \<Rightarrow> proc" where
  "upd_thread f s = s\<lparr>thread := f (thread s)\<rparr>"

section \<open>Operations\<close>

definition pthread_cleanup_push :: "addr \<Rightarrow> addr \<Rightarrow> addr \<Rightarrow> proc \<Rightarrow> proc" where
  "pthread_cleanup_push c routine arg s =
    upd_thread (\<lambda>t. t\<lparr>cleanup_stack := c\<rparr>)
      (s\<lparr>frames := (frames s)(c := \<lparr>cleanup_prev = cleanup_stack (thread s), cleanup_routine = routine,
           cleanup_arg = arg\<rparr>)\<rparr>)"

text \<open>\<open>c->__cleanup_routine(c->__cleanup_arg)\<close>.\<close>

definition call_routine :: "exit_env \<Rightarrow> addr \<Rightarrow> proc \<Rightarrow> proc" where
  "call_routine E c s =
    (let f = frames s c in
     routines E (cleanup_routine f) (cleanup_arg f) (logged (Called (cleanup_routine f) (cleanup_arg f)) s))"

definition pthread_cleanup_pop :: "exit_env \<Rightarrow> addr \<Rightarrow> cint \<Rightarrow> proc \<Rightarrow> proc" where
  "pthread_cleanup_pop E c execute s =
    (let s = upd_thread (\<lambda>t. t\<lparr>cleanup_stack := cleanup_prev (frames s c)\<rparr>) s in
     if execute \<noteq> 0 then call_routine E c s else s)"

text \<open>The \<open>while (thread->cleanup_stack)\<close> of \<open>pthread_exit\<close>; a handler may push handlers, so it need not end.\<close>

partial_function (option) run_cleanups :: "exit_env \<Rightarrow> proc \<Rightarrow> proc option" where
  "run_cleanups E s =
    (let c = cleanup_stack (thread s) in
     if c = NULL then Some s
     else run_cleanups E (call_routine E c (upd_thread (\<lambda>t. t\<lparr>cleanup_stack := cleanup_prev (frames s c)\<rparr>) s)))"

definition drop_altstack :: "exit_env \<Rightarrow> proc \<Rightarrow> proc" where
  "drop_altstack E s =
    (if alternate_signal_stack (thread s) \<noteq> NULL
     then upd_thread (\<lambda>t. t\<lparr>alternate_signal_stack := NULL\<rparr>)
       (logged (Unmapped (alternate_signal_stack (thread s)) (SIGSTKSZ E)) (logged Altstack_disabled s))
     else s)"

text \<open>The part under \<open>gThreadListLock\<close>.\<close>

definition leave_thread :: "bool \<Rightarrow> addr \<Rightarrow> proc \<Rightarrow> proc" where
  "leave_thread user_stack retval s =
    (if attr_flags (thread s) AND PTHREAD_ATTR_FLAG_DETACHED \<noteq> 0 then logged Thread_removed s
     else
       let s = (if \<not> user_stack
                then upd_thread (\<lambda>t. t\<lparr>attr_stack_base := NULL, attr_stack_size := 0, tls := NULL\<rparr>) s else s);
           s = upd_thread (\<lambda>t. t\<lparr>attr_flags := attr_flags t OR PTHREAD_ATTR_FLAG_ZOMBIE, return_value := retval\<rparr>) s in
       if attr_flags (thread s) AND PTHREAD_ATTR_FLAG_JOINED \<noteq> 0 then logged Joiner_signalled s else s)"

definition pthread_exit :: "exit_env \<Rightarrow> addr \<Rightarrow> proc \<Rightarrow> proc option" where
  "pthread_exit E retval s =
    (let stack_base = attr_stack_base (thread s);
         stack_size = attr_stack_size (thread s);
         user_stack = (attr_flags (thread s) AND PTHREAD_ATTR_FLAG_USER_STACK \<noteq> 0) in
     case run_cleanups E s of
       None \<Rightarrow> None
     | Some s \<Rightarrow>
         let s = clean_keys E (logged Keys_cleaned s);
             s = drop_altstack E s;
             s = logged List_locked s;
             s = leave_thread user_stack retval s;
             s = logged List_unlocked s;
             s = logged Signals_blocked s in
         Some (logged (if user_stack then Thread_exited retval else Stack_torn_down stack_base stack_size retval) s))"

text \<open>\<open>__pthread_gettid\<close> and \<open>__pthread_settid\<close> on a heap of thread structures; \<open>None\<close> is a bad pointer.\<close>

definition pthread_gettid :: "(addr \<Rightarrow> pthread_internal option) \<Rightarrow> addr \<Rightarrow> cint option" where
  "pthread_gettid heap thid = (if thid = NULL then None else map_option tid (heap thid))"

definition pthread_settid ::
  "(addr \<Rightarrow> pthread_internal option) \<Rightarrow> addr \<Rightarrow> cint \<Rightarrow> (cint \<times> (addr \<Rightarrow> pthread_internal option)) option" where
  "pthread_settid heap thid t =
    (if thid = NULL then Some (EINVAL, heap)
     else map_option (\<lambda>th. (0, heap(thid \<mapsto> th\<lparr>tid := t\<rparr>))) (heap thid))"

section \<open>The list of handlers\<close>

text \<open>\<open>handlers h a cs\<close>: from \<open>a\<close> the frames \<open>cs\<close> follow each other, the last one ending the list.\<close>

primrec handlers :: "(addr \<Rightarrow> cleanup) \<Rightarrow> addr \<Rightarrow> addr list \<Rightarrow> bool" where
  "handlers h a [] \<longleftrightarrow> a = NULL"
| "handlers h a (c # cs) \<longleftrightarrow> a = c \<and> c \<noteq> NULL \<and> handlers h (cleanup_prev (h c)) cs"

lemma handlers_upd: "c \<notin> set cs \<Longrightarrow> handlers (h(c := f)) a cs = handlers h a cs"
  by (induction cs arbitrary: a) auto

lemma thread_simps [simp]:
  "thread (upd_thread f s) = f (thread s)" "frames (upd_thread f s) = frames s" "log (upd_thread f s) = log s"
  "thread (logged x s) = thread s" "frames (logged x s) = frames s" "log (logged x s) = log s @ [x]"
  by (simp_all add: upd_thread_def logged_def)

text \<open>Handlers and destructors that leave the thread structure, the frames and the log alone.\<close>

definition quiet_code :: "(proc \<Rightarrow> proc) \<Rightarrow> bool" where
  "quiet_code f \<longleftrightarrow> (\<forall>s. thread (f s) = thread s \<and> frames (f s) = frames s \<and> log (f s) = log s)"

abbreviation called :: "(addr \<Rightarrow> cleanup) \<Rightarrow> addr \<Rightarrow> action" where
  "called h c \<equiv> Called (cleanup_routine (h c)) (cleanup_arg (h c))"

lemma call_quiet:
  assumes "\<And>r a. quiet_code (routines E r a)"
  shows "thread (call_routine E c s) = thread s" "frames (call_routine E c s) = frames s"
    "log (call_routine E c s) = log s @ [called (frames s) c]"
  using assms by (simp_all add: call_routine_def Let_def quiet_code_def)

lemma run_cleanups_list:
  assumes "handlers (frames s) (cleanup_stack (thread s)) cs" "\<And>r a. quiet_code (routines E r a)"
  shows "\<exists>s'. run_cleanups E s = Some s' \<and> thread s' = (thread s)\<lparr>cleanup_stack := NULL\<rparr> \<and>
    frames s' = frames s \<and> log s' = log s @ map (called (frames s)) cs"
  using assms(1)
proof (induction cs arbitrary: s)
  case Nil
  then show ?case by (subst run_cleanups.simps) simp
next
  case (Cons c cs)
  let ?s = "call_routine E c (upd_thread (\<lambda>t. t\<lparr>cleanup_stack := cleanup_prev (frames s c)\<rparr>) s)"
  note q = call_quiet [OF assms(2), of c]
  have "handlers (frames ?s) (cleanup_stack (thread ?s)) cs" using Cons.prems by (simp add: q)
  from Cons.IH [OF this] obtain s' where "run_cleanups E ?s = Some s'"
    "thread s' = (thread ?s)\<lparr>cleanup_stack := NULL\<rparr>" "frames s' = frames ?s"
    "log s' = log ?s @ map (called (frames ?s)) cs" by blast
  moreover have "run_cleanups E s = run_cleanups E ?s"
    using Cons.prems by (subst run_cleanups.simps) simp
  ultimately show ?case by (simp add: q)
qed

section \<open>Pushing, popping, exiting\<close>

text \<open>\<open>pthread_cleanup_pop\<close> undoes \<open>pthread_cleanup_push\<close>: the thread's list of handlers is what it was, no
  other frame has changed, and the handler has run, with its own argument, exactly when \<open>execute\<close> is not 0.\<close>

theorem cleanup_push_pop:
  fixes E c r a execute s
  assumes "quiet_code (routines E r a)"
  defines "s' \<equiv> pthread_cleanup_pop E c execute (pthread_cleanup_push c r a s)"
  shows "thread s' = thread s \<and> (\<forall>x. x \<noteq> c \<longrightarrow> frames s' x = frames s x) \<and>
    log s' = log s @ (if execute \<noteq> 0 then [Called r a] else [])"
  using assms(1)
  by (simp add: s'_def pthread_cleanup_pop_def pthread_cleanup_push_def call_routine_def quiet_code_def Let_def)

text \<open>Several pushes, the first of the list first.\<close>

fun push_all :: "(addr \<times> addr \<times> addr) list \<Rightarrow> proc \<Rightarrow> proc" where
  "push_all [] s = s"
| "push_all ((c, r, a) # fs) s = push_all fs (pthread_cleanup_push c r a s)"

lemma push_all_thread: "\<exists>c. thread (push_all fs s) = (thread s)\<lparr>cleanup_stack := c\<rparr>"
proof (induction fs s rule: push_all.induct)
  case (1 s)
  show ?case by (rule exI [of _ "cleanup_stack (thread s)"]) simp
qed (auto simp: pthread_cleanup_push_def)

lemma push_all_log: "log (push_all fs s) = log s"
  by (induction fs s rule: push_all.induct) (simp_all add: pthread_cleanup_push_def)

lemma push_all_frames: "x \<notin> fst ` set fs \<Longrightarrow> frames (push_all fs s) x = frames s x"
  by (induction fs s rule: push_all.induct) (auto simp: pthread_cleanup_push_def)

lemma push_all_handlers:
  assumes "distinct (map fst fs @ cs)" "NULL \<notin> fst ` set fs" "handlers (frames s) (cleanup_stack (thread s)) cs"
  shows "handlers (frames (push_all fs s)) (cleanup_stack (thread (push_all fs s))) (rev (map fst fs) @ cs) \<and>
    map (called (frames (push_all fs s))) (rev (map fst fs)) = map (\<lambda>(c, r, a). Called r a) (rev fs)"
  using assms
proof (induction fs s arbitrary: cs rule: push_all.induct)
  case (2 c r a fs s)
  let ?s = "pthread_cleanup_push c r a s"
  have "handlers (frames ?s) (cleanup_stack (thread ?s)) (c # cs)"
    using 2(2-4) by (simp add: pthread_cleanup_push_def handlers_upd)
  moreover have "distinct (map fst fs @ c # cs)" "NULL \<notin> fst ` set fs" using 2(2,3) by auto
  ultimately have "handlers (frames (push_all fs ?s)) (cleanup_stack (thread (push_all fs ?s))) (rev (map fst fs) @ c # cs)"
    "map (called (frames (push_all fs ?s))) (rev (map fst fs)) = map (\<lambda>(c, r, a). Called r a) (rev fs)"
    using 2(1) [of "c # cs"] by auto
  moreover have "frames (push_all fs ?s) c = frames ?s c" using 2(2) by (intro push_all_frames) auto
  ultimately show ?case by (simp add: pthread_cleanup_push_def)
qed simp

lemma exit_from_list:
  assumes "handlers (frames s) (cleanup_stack (thread s)) cs" "\<And>r a. quiet_code (routines E r a)" "quiet_code (clean_keys E)"
  shows "\<exists>s'. pthread_exit E retval s = Some s' \<and>
    log s' = log s @ map (called (frames s)) cs @ [Keys_cleaned] @
      (if alternate_signal_stack (thread s) \<noteq> NULL
       then [Altstack_disabled, Unmapped (alternate_signal_stack (thread s)) (SIGSTKSZ E)] else []) @
      [List_locked] @
      (if attr_flags (thread s) AND PTHREAD_ATTR_FLAG_DETACHED \<noteq> 0 then [Thread_removed]
       else if attr_flags (thread s) AND PTHREAD_ATTR_FLAG_JOINED \<noteq> 0 then [Joiner_signalled] else []) @
      [List_unlocked, Signals_blocked,
       if attr_flags (thread s) AND PTHREAD_ATTR_FLAG_USER_STACK \<noteq> 0 then Thread_exited retval
       else Stack_torn_down (attr_stack_base (thread s)) (attr_stack_size (thread s)) retval] \<and>
    thread s' =
      (let t = (thread s)\<lparr>cleanup_stack := NULL, alternate_signal_stack := NULL\<rparr> in
       if attr_flags t AND PTHREAD_ATTR_FLAG_DETACHED \<noteq> 0 then t
       else (if attr_flags t AND PTHREAD_ATTR_FLAG_USER_STACK \<noteq> 0 then t
             else t\<lparr>attr_stack_base := NULL, attr_stack_size := 0, tls := NULL\<rparr>)
         \<lparr>attr_flags := attr_flags t OR PTHREAD_ATTR_FLAG_ZOMBIE, return_value := retval\<rparr>)"
proof -
  obtain s1 where s1: "run_cleanups E s = Some s1" "thread s1 = (thread s)\<lparr>cleanup_stack := NULL\<rparr>"
    "log s1 = log s @ map (called (frames s)) cs"
    using run_cleanups_list [OF assms(1,2)] by blast
  have joined: "(f OR PTHREAD_ATTR_FLAG_ZOMBIE) AND PTHREAD_ATTR_FLAG_JOINED = f AND PTHREAD_ATTR_FLAG_JOINED" for f
    by (simp add: bit.conj_disj_distrib2 PTHREAD_ATTR_FLAG_ZOMBIE_def PTHREAD_ATTR_FLAG_JOINED_def)
  show ?thesis
    using assms(3) s1
    by (simp add: pthread_exit_def drop_altstack_def leave_thread_def quiet_code_def joined Let_def)
qed

text \<open>C33: a thread that has pushed handlers and exits runs them all, the last one first and each with its own
  argument, then the TLS destructors, then gives back its signal stack, takes itself off the thread list or
  signals its joiner under the list lock, blocks the signals and at the very end frees its stack: the stack
  it had when it entered \<open>pthread_exit\<close>, although the thread structure no longer points to it.\<close>

theorem exit_order:
  fixes E fs s
  assumes "distinct (map fst fs)" "NULL \<notin> fst ` set fs" "cleanup_stack (thread s) = NULL"
    and "\<forall>r a. quiet_code (routines E r a)" "quiet_code (clean_keys E)"
  shows "\<exists>s'. pthread_exit E retval (push_all fs s) = Some s' \<and>
    log s' = log s @ map (\<lambda>(c, r, a). Called r a) (rev fs) @ [Keys_cleaned] @
      (if alternate_signal_stack (thread s) \<noteq> NULL
       then [Altstack_disabled, Unmapped (alternate_signal_stack (thread s)) (SIGSTKSZ E)] else []) @
      [List_locked] @
      (if attr_flags (thread s) AND PTHREAD_ATTR_FLAG_DETACHED \<noteq> 0 then [Thread_removed]
       else if attr_flags (thread s) AND PTHREAD_ATTR_FLAG_JOINED \<noteq> 0 then [Joiner_signalled] else []) @
      [List_unlocked, Signals_blocked,
       if attr_flags (thread s) AND PTHREAD_ATTR_FLAG_USER_STACK \<noteq> 0 then Thread_exited retval
       else Stack_torn_down (attr_stack_base (thread s)) (attr_stack_size (thread s)) retval]"
proof -
  obtain c where t: "thread (push_all fs s) = (thread s)\<lparr>cleanup_stack := c\<rparr>" using push_all_thread by blast
  have "handlers (frames s) (cleanup_stack (thread s)) []" using assms(3) by simp
  from push_all_handlers [OF _ assms(2) this] assms(1)
  have h: "handlers (frames (push_all fs s)) (cleanup_stack (thread (push_all fs s))) (rev (map fst fs))"
    "map (called (frames (push_all fs s))) (rev (map fst fs)) = map (\<lambda>(c, r, a). Called r a) (rev fs)"
    by simp_all
  show ?thesis
    using exit_from_list [OF h(1) assms(4) [rule_format] assms(5), of retval] unfolding h(2)
    by (auto simp: t push_all_log)
qed

text \<open>C34: what a joiner finds of a joinable thread that has exited: the zombie flag added to its flags, the
  returned value, no pointers into a stack the library has freed, and no handlers left.\<close>

theorem exit_leaves_zombie:
  fixes E s
  assumes "handlers (frames s) (cleanup_stack (thread s)) cs"
    and "\<forall>r a. quiet_code (routines E r a)" "quiet_code (clean_keys E)"
    and "attr_flags (thread s) AND PTHREAD_ATTR_FLAG_DETACHED = 0"
  shows "\<exists>s'. pthread_exit E retval s = Some s' \<and> return_value (thread s') = retval \<and>
    attr_flags (thread s') = attr_flags (thread s) OR PTHREAD_ATTR_FLAG_ZOMBIE \<and>
    cleanup_stack (thread s') = NULL \<and> alternate_signal_stack (thread s') = NULL \<and>
    (attr_flags (thread s) AND PTHREAD_ATTR_FLAG_USER_STACK = 0 \<longrightarrow>
      attr_stack_base (thread s') = NULL \<and> attr_stack_size (thread s') = 0 \<and> tls (thread s') = NULL)"
  using exit_from_list [OF assms(1) assms(2) [rule_format] assms(3), of retval] assms(4)
  by (auto simp: Let_def)

section \<open>Thread ids\<close>

lemma settid_gettid:
  assumes "thid \<noteq> NULL" "heap thid = Some th"
  shows "\<exists>heap'. pthread_settid heap thid t = Some (0, heap') \<and> pthread_gettid heap' thid = Some t \<and>
    (\<forall>u. u \<noteq> thid \<longrightarrow> pthread_gettid heap' u = pthread_gettid heap u)"
  using assms by (auto simp: pthread_settid_def pthread_gettid_def)

section \<open>A concrete thread\<close>

definition demo_thread :: "cint \<Rightarrow> proc" where
  "demo_thread flags = \<lparr>thread = \<lparr>next_thread = 0, prev_thread = 0, attr_flags = flags, attr_stack_base = 0x10000,
     attr_stack_size = 8192, attr_guard_size = 4096, attr_sched_policy = 0, attr_sched_priority = 0, tid = 7,
     allocated_on_heap = True, join_cond = 0, return_value = 0, internal_flags = 0, cleanup_stack = NULL, tls = 0x11000,
     alternate_signal_stack = 0x20000, dlerror_buffer = []\<rparr>,
     frames = (\<lambda>_. \<lparr>cleanup_prev = 0, cleanup_routine = 0, cleanup_arg = 0\<rparr>), log = []\<rparr>"

definition demo_env :: exit_env where
  "demo_env = \<lparr>routines = (\<lambda>_ _ s. s), clean_keys = (\<lambda>s. s), SIGSTKSZ = 8192\<rparr>"

lemma demo_quiet: "quiet_code (routines demo_env r a)" "quiet_code (clean_keys demo_env)"
  by (simp_all add: demo_env_def quiet_code_def)

lemma cleanup_push_pop_witness:
  "log (pthread_cleanup_pop demo_env 4096 1 (pthread_cleanup_push 4096 100 1 (demo_thread 0))) = [Called 100 1]"
  using cleanup_push_pop [of demo_env 100 1 4096 1 "demo_thread 0", OF demo_quiet(1)] by (simp add: demo_thread_def)

lemma exit_order_witness:
  "\<exists>s'. pthread_exit demo_env 5 (push_all [(4096, 100, 1), (4112, 200, 2)] (demo_thread 4)) = Some s' \<and>
    log s' = [Called 200 2, Called 100 1, Keys_cleaned, Altstack_disabled, Unmapped 0x20000 8192, List_locked,
      Joiner_signalled, List_unlocked, Signals_blocked, Stack_torn_down 0x10000 8192 5]"
  using exit_order [of "[(4096, 100, 1), (4112, 200, 2)]" "demo_thread 4" demo_env 5] demo_quiet
  by (simp add: demo_thread_def PTHREAD_ATTR_FLAG_DETACHED_def PTHREAD_ATTR_FLAG_JOINED_def
      PTHREAD_ATTR_FLAG_USER_STACK_def) (simp add: demo_env_def)

lemma exit_leaves_zombie_witness:
  "\<exists>s'. pthread_exit demo_env 5 (demo_thread 4) = Some s' \<and> return_value (thread s') = 5 \<and>
    attr_flags (thread s') = 12 \<and> attr_stack_base (thread s') = NULL"
proof -
  have "handlers (frames (demo_thread 4)) (cleanup_stack (thread (demo_thread 4))) []"
    by (simp add: demo_thread_def)
  from exit_leaves_zombie [OF this, of demo_env 5] demo_quiet show ?thesis
    by (auto simp: demo_thread_def PTHREAD_ATTR_FLAG_DETACHED_def PTHREAD_ATTR_FLAG_ZOMBIE_def
        PTHREAD_ATTR_FLAG_USER_STACK_def)
qed

end
