(* ===== verification/Tls.thy ===== *)
theory Tls
  imports Prelude
begin

text \<open>
  The thread-local storage layout of \<^verbatim>\<open>libp4hread/private/bionic_tls.h\<close>: the well-known slots and the size of
  the slot array, a number rounded up by the macro \<open>BIONIC_ALIGN\<close>.
\<close>

section \<open>Slots\<close>

definition TLS_SLOT_SELF :: cint where "TLS_SLOT_SELF = 0"
definition TLS_SLOT_THREAD_ID :: cint where "TLS_SLOT_THREAD_ID = TLS_SLOT_SELF + 1"
definition TLS_SLOT_ERRNO :: cint where "TLS_SLOT_ERRNO = TLS_SLOT_THREAD_ID + 1"
definition TLS_SLOT_OPENGL_API :: cint where "TLS_SLOT_OPENGL_API = 3"
definition TLS_SLOT_OPENGL :: cint where "TLS_SLOT_OPENGL = 4"
definition TLS_SLOT_BIONIC_PREINIT :: cint where "TLS_SLOT_BIONIC_PREINIT = TLS_SLOT_OPENGL_API"
definition TLS_SLOT_STACK_GUARD :: cint where "TLS_SLOT_STACK_GUARD = 5"
definition TLS_SLOT_DLERROR :: cint where "TLS_SLOT_DLERROR = TLS_SLOT_STACK_GUARD + 1"
definition TLS_SLOT_FIRST_USER_SLOT :: cint where "TLS_SLOT_FIRST_USER_SLOT = TLS_SLOT_DLERROR + 1"

definition GLOBAL_INIT_THREAD_LOCAL_BUFFER_COUNT :: cint where "GLOBAL_INIT_THREAD_LOCAL_BUFFER_COUNT = 4"

definition BIONIC_ALIGN :: "cint \<Rightarrow> cint \<Rightarrow> cint" where
  "BIONIC_ALIGN x a = (x + (a - 1)) AND NOT (a - 1)"

definition BIONIC_TLS_SLOTS :: cint where
  "BIONIC_TLS_SLOTS = BIONIC_ALIGN (128 + TLS_SLOT_FIRST_USER_SLOT + GLOBAL_INIT_THREAD_LOCAL_BUFFER_COUNT) 4"

lemmas slot_defs = TLS_SLOT_SELF_def TLS_SLOT_THREAD_ID_def TLS_SLOT_ERRNO_def TLS_SLOT_OPENGL_API_def
  TLS_SLOT_OPENGL_def TLS_SLOT_BIONIC_PREINIT_def TLS_SLOT_STACK_GUARD_def TLS_SLOT_DLERROR_def
  TLS_SLOT_FIRST_USER_SLOT_def GLOBAL_INIT_THREAD_LOCAL_BUFFER_COUNT_def

section \<open>Rounding up\<close>

lemma clear_low_bits: "unat (v AND NOT (mask k)) = unat (v :: cint) div 2 ^ k * 2 ^ k"
proof -
  have "v AND NOT (mask k) = push_bit k (drop_bit k v)"
    by (rule bit_eqI) (auto simp: bit_simps)
  moreover have "unat v div 2 ^ k * 2 ^ k < 2 ^ 32"
    using le_less_trans [OF div_times_less_eq_dividend unat_less_2p32] by simp
  ultimately show ?thesis by (simp add: unat_push_bit_mult unat_drop_bit_div)
qed

text \<open>For every power of two below \<open>2\<^sup>3\<^sup>2\<close> and as long as the sum does not overflow, \<open>BIONIC_ALIGN\<close> computes the
  least multiple of it that is not below its argument.\<close>

theorem bionic_align_least_multiple:
  assumes "k < 32" "unat x + (2 ^ k - 1) < 2 ^ 32"
  shows "unat (BIONIC_ALIGN x (2 ^ k)) = (LEAST m. 2 ^ k dvd m \<and> unat x \<le> m)"
proof -
  have m: "(2 ^ k :: cint) - 1 = mask k" by (simp add: mask_eq_exp_minus_1)
  have mask: "unat (mask k :: cint) = 2 ^ k - 1"
    using assms(1) by (simp add: unat_mask32)
  then have "unat (x + mask k) = unat x + (2 ^ k - 1)"
    using assms(2) unat_add_lem [of x "mask k"] by simp
  then have r: "unat (BIONIC_ALIGN x (2 ^ k)) = (unat x + (2 ^ k - 1)) div 2 ^ k * 2 ^ k"
    by (simp add: BIONIC_ALIGN_def m clear_low_bits)
  show ?thesis
    unfolding r
  proof (rule Least_equality [symmetric])
    let ?n = "(unat x + (2 ^ k - 1)) div 2 ^ k * 2 ^ k"
    have "unat x + (2 ^ k - 1) < ?n + 2 ^ k" using div_mult_mod_eq [of "unat x + (2 ^ k - 1)" "2 ^ k"]
      by (metis add_less_cancel_left mod_less_divisor zero_less_numeral zero_less_power)
    then show "2 ^ k dvd ?n \<and> unat x \<le> ?n" by (simp add: less_iff_Suc_add) presburger
    fix m assume "2 ^ k dvd m \<and> unat x \<le> m"
    then obtain q where q: "m = q * 2 ^ k" "unat x \<le> q * 2 ^ k" by (auto simp: dvd_def mult.commute)
    have "0 < (2 :: nat) ^ k" by simp
    with q(2) have "unat x + (2 ^ k - 1) < Suc q * 2 ^ k" unfolding mult_Suc by linarith
    then have "(unat x + (2 ^ k - 1)) div 2 ^ k < Suc q" by (simp add: div_less_iff_less_mult)
    with q(1) show "?n \<le> m" by simp
  qed
qed

lemma bionic_align_least_multiple_witness:
  "unat (BIONIC_ALIGN 139 (2 ^ 2)) = (LEAST m. 2 ^ 2 dvd m \<and> 139 \<le> m)"
  using bionic_align_least_multiple [of 2 139] by simp

text \<open>The array has room for the 128 keys POSIX asks for beside the reserved slots.\<close>

lemma tls_slots_fit:
  "BIONIC_TLS_SLOTS = 140"
  "unat (TLS_SLOT_FIRST_USER_SLOT + GLOBAL_INIT_THREAD_LOCAL_BUFFER_COUNT) + 128 \<le> unat BIONIC_TLS_SLOTS"
  by (simp_all add: BIONIC_TLS_SLOTS_def BIONIC_ALIGN_def slot_defs)

end
