(* ===== verification/Atomics.thy ===== *)
theory Atomics
  imports Interleave
begin

text \<open>
  The atomic operations of \<^verbatim>\<open>libp4hread/private/bionic_atomic_arm.h\<close>: loops around the exclusive load
  and store of the processor. A round of such a loop can be disturbed before the load and between the
  load and the store; a schedule lists the disturbances of every round. The locale \<open>exclusive_loop\<close>
  proves for all three loops that they act at one moment, as the programs of theory \<open>Prog\<close> take them to.
\<close>

section \<open>Exclusive accesses\<close>

text \<open>A word of memory with the processor's exclusive monitor for it.\<close>

record cell =
  cval :: cint
  excl :: bool

text \<open>What can happen between two instructions: nothing, a loss of the monitor (an interrupt, a context
  switch), a store by another thread.\<close>

datatype interf = Quiet | Spurious | Written cint

fun disturb :: "interf \<Rightarrow> cell \<Rightarrow> cell" where
  "disturb Quiet c = c"
| "disturb Spurious c = c\<lparr>excl := False\<rparr>"
| "disturb (Written v) c = c\<lparr>cval := v, excl := False\<rparr>"

definition ldrex :: "cell \<Rightarrow> cint \<times> cell" where
  "ldrex c = (cval c, c\<lparr>excl := True\<rparr>)"

definition strex :: "cint \<Rightarrow> cell \<Rightarrow> cint \<times> cell" where
  "strex v c = (if excl c then (0, \<lparr>cval = v, excl = False\<rparr>) else (1, c\<lparr>excl := False\<rparr>))"

type_synonym rounds = "(interf \<times> interf) list"

section \<open>The three operations\<close>

text \<open>Each returns its result, the cell and the rounds that are left; \<open>None\<close> when the schedule is used up.\<close>

fun bionic_cmpxchg :: "cint \<Rightarrow> cint \<Rightarrow> rounds \<Rightarrow> cell \<Rightarrow> (cint \<times> cell \<times> rounds) option" where
  "bionic_cmpxchg old_value new_value [] c = None"
| "bionic_cmpxchg old_value new_value ((i, j) # is) c =
    (let (prev, c) = ldrex (disturb i c);
         c = disturb j c;
         (status, c) = (if prev = old_value then strex new_value c else (0, c)) in
     if status \<noteq> 0 then bionic_cmpxchg old_value new_value is c
     else Some (if prev \<noteq> old_value then 1 else 0, c, is))"

fun bionic_swap :: "cint \<Rightarrow> rounds \<Rightarrow> cell \<Rightarrow> (cint \<times> cell \<times> rounds) option" where
  "bionic_swap new_value [] c = None"
| "bionic_swap new_value ((i, j) # is) c =
    (let (prev, c) = ldrex (disturb i c);
         (status, c) = strex new_value (disturb j c) in
     if status \<noteq> 0 then bionic_swap new_value is c else Some (prev, c, is))"

fun bionic_atomic_dec :: "rounds \<Rightarrow> cell \<Rightarrow> (cint \<times> cell \<times> rounds) option" where
  "bionic_atomic_dec [] c = None"
| "bionic_atomic_dec ((i, j) # is) c =
    (let (prev, c) = ldrex (disturb i c);
         tmp = prev - 1;
         (status, c) = strex tmp (disturb j c) in
     if status \<noteq> 0 then bionic_atomic_dec is c else Some (prev, c, is))"

section \<open>Exclusive loops are atomic\<close>

text \<open>What other threads have made of the word after these disturbances.\<close>

fun store_of :: "interf \<Rightarrow> cint \<Rightarrow> cint" where
  "store_of (Written v) x = v"
| "store_of _ x = x"

abbreviation after :: "interf list \<Rightarrow> cint \<Rightarrow> cint" where
  "after is x \<equiv> fold store_of is x"

abbreviation flat :: "rounds \<Rightarrow> interf list" where
  "flat is \<equiv> concat (map (\<lambda>(i, j). [i, j]) is)"

lemma cval_disturb [simp]: "cval (disturb i c) = store_of i (cval c)"
  by (cases i) simp_all

text \<open>A loop that computes from the word it read what to store, if anything, and what to return.\<close>

locale exclusive_loop =
  fixes loop :: "rounds \<Rightarrow> cell \<Rightarrow> (cint \<times> cell \<times> rounds) option"
    and upd :: "cint \<Rightarrow> cint option" and ret :: "cint \<Rightarrow> cint"
  assumes loop_end: "loop [] c = None"
    and loop_round: "loop ((i, j) # is) c =
      (let (prev, c) = ldrex (disturb i c);
           (status, c) = (case upd prev of Some v \<Rightarrow> strex v (disturb j c) | None \<Rightarrow> (0, disturb j c)) in
       if status \<noteq> 0 then loop is c else Some (ret prev, c, is))"
begin

lemma one_round:
  obtains (stored) v where "upd (store_of i (cval c)) = Some v" "j = Quiet"
      "loop ((i, j) # is) c = Some (ret (store_of i (cval c)), \<lparr>cval = v, excl = False\<rparr>, is)"
    | (kept) c' where "upd (store_of i (cval c)) = None" "cval c' = after [i, j] (cval c)"
      "loop ((i, j) # is) c = Some (ret (store_of i (cval c)), c', is)"
    | (again) c' where "j \<noteq> Quiet" "cval c' = after [i, j] (cval c)" "loop ((i, j) # is) c = loop is c'"
proof -
  let ?d = "disturb j ((disturb i c)\<lparr>excl := True\<rparr>)"
  show thesis
  proof (cases "upd (store_of i (cval c))")
    case None
    show thesis by (rule kept [of ?d]) (simp_all add: None loop_round ldrex_def)
  next
    case (Some x)
    show thesis
    proof (cases "j = Quiet")
      case True
      show thesis by (rule stored [of x]) (simp_all add: True Some loop_round ldrex_def strex_def)
    next
      case False
      then have "\<not> excl ?d" by (cases j) simp_all
      then show thesis
        by (intro again [of "?d\<lparr>excl := False\<rparr>"]) (simp_all add: False Some loop_round ldrex_def strex_def)
    qed
  qed
qed

lemma acts_at_once:
  assumes "loop is c = Some (r, c', rest)"
  shows "\<exists>used pre post v. is = used @ rest \<and> flat used = pre @ post \<and> v = after pre (cval c) \<and> r = ret v \<and>
    cval c' = after post (case upd v of Some x \<Rightarrow> x | None \<Rightarrow> v)"
  using assms
proof (induction "is" arbitrary: c)
  case Nil
  then show ?case by (simp add: loop_end)
next
  case (Cons ij "is")
  obtain i j where ij: "ij = (i, j)" by fastforce
  show ?case
  proof (cases rule: one_round [of i c j "is"])
    case (stored v)
    with Cons.prems ij show ?thesis
      by (intro exI [of _ "[(i, j)]"] exI [of _ "[i, j]"] exI [of _ "[]"]) auto
  next
    case (kept c'')
    with Cons.prems ij show ?thesis
      by (intro exI [of _ "[(i, j)]"] exI [of _ "[i]"] exI [of _ "[j]"]) auto
  next
    case (again c'')
    with Cons.prems ij Cons.IH [of c''] obtain used pre post v where
      "is = used @ rest" "flat used = pre @ post" "v = after pre (cval c'')" "r = ret v"
      "cval c' = after post (case upd v of Some x \<Rightarrow> x | None \<Rightarrow> v)" by auto
    with again(2) ij show ?thesis
      by (intro exI [of _ "(i, j) # used"] exI [of _ "i # j # pre"] exI [of _ post]) auto
  qed
qed

lemma returns_when_quiet: "(i, Quiet) \<in> set is \<Longrightarrow> \<exists>r c' rest. loop is c = Some (r, c', rest)"
proof (induction "is" arbitrary: c)
  case (Cons ij "is")
  obtain i' j' where ij: "ij = (i', j')" by fastforce
  show ?case by (cases rule: one_round [of i' c j' "is"]) (use Cons ij in auto)
qed simp

end

interpretation cmpxchg: exclusive_loop "bionic_cmpxchg old new"
    "\<lambda>v. if v = old then Some new else None" "\<lambda>v. if v \<noteq> old then 1 else 0" for old new
  by unfold_locales (auto simp: ldrex_def Let_def)

interpretation swap: exclusive_loop "bionic_swap new" "\<lambda>v. Some new" "\<lambda>v. v" for new
  by unfold_locales (auto simp: ldrex_def Let_def)

interpretation dec: exclusive_loop bionic_atomic_dec "\<lambda>v. Some (v - 1)" "\<lambda>v. v"
  by unfold_locales (auto simp: ldrex_def Let_def)

section \<open>The operations as the programs use them\<close>

text \<open>The disturbances of the rounds an operation used, around the moment at which it acted.\<close>

definition acted :: "rounds \<Rightarrow> rounds \<Rightarrow> cell \<Rightarrow> cell \<Rightarrow> (cint \<Rightarrow> cint \<Rightarrow> bool) \<Rightarrow> bool" where
  "acted is rest c c' step \<longleftrightarrow> (\<exists>used pre post v'. is = used @ rest \<and> flat used = pre @ post \<and>
     step (after pre (cval c)) v' \<and> cval c' = after post v')"

text \<open>C16: \<open>__bionic_cmpxchg\<close> is atomic: whatever other threads store in between, it has the effect and the
  result of the compare-and-swap step of the thread model, taken at one moment between its first and
  last access.\<close>

theorem cmpxchg_atomic:
  assumes "bionic_cmpxchg old new is c = Some (r, c', rest)"
  shows "acted is rest c c' (\<lambda>v v'. access t (M(a := v)) (Cmpxchg old new a Return) = Some (M(a := v'), Return r))"
  using cmpxchg.acts_at_once [OF assms] unfolding acted_def by (fastforce split: if_splits)

lemma cmpxchg_atomic_witness:
  "bionic_cmpxchg 0 1 [(Written 0, Spurious), (Quiet, Quiet)] \<lparr>cval = 5, excl = False\<rparr> =
     Some (0, \<lparr>cval = 1, excl = False\<rparr>, []) \<and>
   acted [(Written 0, Spurious), (Quiet, Quiet)] [] \<lparr>cval = 5, excl = False\<rparr> \<lparr>cval = 1, excl = False\<rparr>
     (\<lambda>v v'. access 7 ((\<lambda>_. 0)(4096 := v)) (Cmpxchg 0 1 4096 Return) = Some ((\<lambda>_. 0)(4096 := v'), Return 0))"
proof -
  have "bionic_cmpxchg 0 1 [(Written 0, Spurious), (Quiet, Quiet)] \<lparr>cval = 5, excl = False\<rparr> =
     Some (0, \<lparr>cval = 1, excl = False\<rparr>, [])" by (simp add: ldrex_def strex_def)
  with cmpxchg_atomic [OF this, of 7 "\<lambda>_. 0" 4096] show ?thesis by blast
qed

text \<open>\<open>__bionic_swap\<close> and \<open>__bionic_atomic_dec\<close> are atomic in the same sense.\<close>

theorem swap_dec_atomic:
  assumes "bionic_swap new is c = Some (r, c', rest)" "bionic_atomic_dec is2 d = Some (r2, d', rest2)"
  shows "acted is rest c c' (\<lambda>v v'. access t (M(a := v)) (Swap new a Return) = Some (M(a := v'), Return r)) \<and>
    acted is2 rest2 d d' (\<lambda>v v'. access t (M(a := v)) (Atomic_dec a Return) = Some (M(a := v'), Return r2))"
  using swap.acts_at_once [OF assms(1)] dec.acts_at_once [OF assms(2)] unfolding acted_def by fastforce

lemma swap_dec_atomic_witness:
  "acted [(Quiet, Written 3), (Quiet, Quiet)] [] \<lparr>cval = 5, excl = False\<rparr> \<lparr>cval = 2, excl = False\<rparr>
     (\<lambda>v v'. access 7 ((\<lambda>_. 0)(4096 := v)) (Swap 2 4096 Return) = Some ((\<lambda>_. 0)(4096 := v'), Return 3)) \<and>
   acted [(Quiet, Written 3), (Quiet, Quiet)] [] \<lparr>cval = 5, excl = False\<rparr> \<lparr>cval = 2, excl = False\<rparr>
     (\<lambda>v v'. access 7 ((\<lambda>_. 0)(4096 := v)) (Atomic_dec 4096 Return) = Some ((\<lambda>_. 0)(4096 := v'), Return 3))"
  using swap_dec_atomic [of 2 "[(Quiet, Written 3), (Quiet, Quiet)]" "\<lparr>cval = 5, excl = False\<rparr>" 3
    "\<lparr>cval = 2, excl = False\<rparr>" "[]" "[(Quiet, Written 3), (Quiet, Quiet)]" "\<lparr>cval = 5, excl = False\<rparr>" 3
    "\<lparr>cval = 2, excl = False\<rparr>" "[]" 7 "\<lambda>_. 0" 4096]
  by (simp add: ldrex_def strex_def)

text \<open>C36: the three loops end as soon as one of their rounds is not disturbed between the exclusive load
  and the exclusive store.\<close>

theorem atomics_return:
  assumes "(i, Quiet) \<in> set is"
  shows "(\<exists>r c' rest. bionic_cmpxchg old new is c = Some (r, c', rest)) \<and>
    (\<exists>r c' rest. bionic_swap new is c = Some (r, c', rest)) \<and>
    (\<exists>r c' rest. bionic_atomic_dec is c = Some (r, c', rest))"
  using cmpxchg.returns_when_quiet [OF assms] swap.returns_when_quiet [OF assms] dec.returns_when_quiet [OF assms]
  by blast

lemma atomics_return_witness:
  "\<exists>r c' rest. bionic_swap 9 [(Quiet, Spurious), (Written 1, Quiet)] \<lparr>cval = 5, excl = False\<rparr> = Some (r, c', rest)"
  using atomics_return [of "Written 1" "[(Quiet, Spurious), (Written 1, Quiet)]" 0 9 "\<lparr>cval = 5, excl = False\<rparr>"]
  by simp

end
