(* ===== verification/CLib.thy ===== *)
theory CLib
  imports Prelude
begin

text \<open>
  What the device code uses of the C library on text: \<open>sprintf\<close> with \<open>"%d\n"\<close> and \<open>strtol\<close> in base 10,
  on strings of bytes. \<open>strtol\<close> reads from a buffer with the contents given and has no defined result
  when it runs off the end of it.
\<close>

named_theorems clib_simps \<open>evaluation of the text functions\<close>

text \<open>How reading a whole file ends; the numbers are \<open>errno\<close>.\<close>

datatype read_result = Open_error cint | Read_error cint | Bytes string

section \<open>Decimal digits\<close>

definition digit :: "nat \<Rightarrow> char" where
  "digit d = char_of (48 + d)"

definition is_digit :: "char \<Rightarrow> bool" where
  "is_digit c \<longleftrightarrow> 48 \<le> (of_char c :: nat) \<and> (of_char c :: nat) \<le> 57"

definition digit_val :: "char \<Rightarrow> nat" where
  "digit_val c = of_char c - 48"

definition is_space :: "char \<Rightarrow> bool" where
  "is_space c \<longleftrightarrow> (of_char c :: nat) = 32 \<or> 9 \<le> (of_char c :: nat) \<and> (of_char c :: nat) \<le> 13"

lemma digit_facts [simp]:
  "d < 10 \<Longrightarrow> is_digit (digit d)" "d < 10 \<Longrightarrow> digit_val (digit d) = d" "d < 10 \<Longrightarrow> \<not> is_space (digit d)"
  "d < 10 \<Longrightarrow> digit d \<noteq> CHR ''-''" "d < 10 \<Longrightarrow> digit d \<noteq> CHR ''+''"
proof -
  assume d: "d < 10"
  then have o: "(of_char (digit d) :: nat) = 48 + d" by (simp add: digit_def)
  show "is_digit (digit d)" "digit_val (digit d) = d" "\<not> is_space (digit d)"
    using d o by (auto simp: is_digit_def digit_val_def is_space_def)
  show "digit d \<noteq> CHR ''-''" "digit d \<noteq> CHR ''+''"
    using o by auto
qed

section \<open>Printing\<close>

fun nat_dec :: "nat \<Rightarrow> string" where
  "nat_dec n = (if n < 10 then [digit n] else nat_dec (n div 10) @ [digit (n mod 10)])"

declare nat_dec.simps [simp del, clib_simps]

definition int_dec :: "int \<Rightarrow> string" where
  "int_dec i = (if i < 0 then ''-'' @ nat_dec (nat (- i)) else nat_dec (nat i))"

text \<open>\<open>sprintf(buffer, "%d\n", value)\<close>: the bytes written before the terminating 0.\<close>

definition sprintf_d :: "cint \<Rightarrow> string" where
  "sprintf_d value = int_dec (sint value) @ [CHR 0x0A]"

lemma nat_dec_length: "n < 10 ^ k \<Longrightarrow> 1 \<le> k \<Longrightarrow> length (nat_dec n) \<le> k"
proof (induction n arbitrary: k rule: nat_dec.induct)
  case (1 n)
  show ?case
  proof (cases "n < 10")
    case True
    with 1(3) show ?thesis by (simp add: nat_dec.simps)
  next
    case False
    from 1(3) obtain k' where k: "k = Suc k'" by (cases k) auto
    with 1(2) False have "k' \<noteq> 0" by (intro notI) simp
    with k have k: "k = Suc k'" "1 \<le> k'" by auto
    with 1(2) have "n div 10 < 10 ^ k'" by (simp add: div_less_iff_less_mult mult.commute)
    with 1(1) [OF False _ k(2)] k False show ?thesis by (subst nat_dec.simps) simp
  qed
qed

lemma sprintf_fits: "length (sprintf_d v) + 1 \<le> 20"
proof -
  have "nat (- sint v) < 10 ^ 10" "nat (sint v) < 10 ^ 10"
    using sint_ge [of v] sint_lt [of v] by (simp_all add: nat_less_iff)
  then show ?thesis
    using nat_dec_length [of "nat (- sint v)" 10] nat_dec_length [of "nat (sint v)" 10]
    by (auto simp: sprintf_d_def int_dec_def)
qed

section \<open>Reading\<close>

fun read_digits :: "nat \<Rightarrow> string \<Rightarrow> nat option" where
  "read_digits acc [] = None"
| "read_digits acc (c # cs) = (if is_digit c then read_digits (10 * acc + digit_val c) cs else Some acc)"

definition LONG_MAX :: int where "LONG_MAX = 2147483647"
definition LONG_MIN :: int where "LONG_MIN = - 2147483648"

text \<open>The value and whether \<open>errno\<close> is set to \<open>ERANGE\<close>.\<close>

definition long_range :: "int \<Rightarrow> cint \<times> bool" where
  "long_range v = (if v > LONG_MAX then (of_int LONG_MAX, True)
    else if v < LONG_MIN then (of_int LONG_MIN, True) else (of_int v, False))"

definition strtol :: "string \<Rightarrow> (cint \<times> bool) option" where
  "strtol s =
    (case dropWhile is_space s of
       [] \<Rightarrow> None
     | c # cs \<Rightarrow>
         let (neg, ds) = (if c = CHR ''-'' then (True, cs) else if c = CHR ''+'' then (False, cs) else (False, c # cs))
         in map_option (\<lambda>n. long_range (if neg then - int n else int n)) (read_digits 0 ds))"

lemma read_nat_dec: "read_digits acc (nat_dec n @ s) = read_digits (acc * 10 ^ length (nat_dec n) + n) s"
proof (induction n arbitrary: acc s rule: nat_dec.induct)
  case (1 n)
  show ?case
  proof (cases "n < 10")
    case True
    then show ?thesis by (simp add: nat_dec.simps mult.commute)
  next
    case False
    have e: "nat_dec n = nat_dec (n div 10) @ [digit (n mod 10)]" using False by (subst nat_dec.simps) simp
    have "10 * (acc * 10 ^ length (nat_dec (n div 10)) + n div 10) + n mod 10 =
        acc * 10 ^ length (nat_dec n) + n"
      unfolding e by simp
    with 1 [OF False, of acc "digit (n mod 10) # s"] show ?thesis unfolding e by (simp add: ac_simps)
  qed
qed

lemma nat_dec_head: "\<exists>d cs. nat_dec n = digit d # cs \<and> d < 10"
proof (induction n rule: nat_dec.induct)
  case (1 n)
  show ?case
  proof (cases "n < 10")
    case False
    with 1 obtain d cs where "nat_dec (n div 10) = digit d # cs" "d < 10" by blast
    with False show ?thesis by (subst nat_dec.simps) (auto intro: exI [of _ d])
  qed (subst nat_dec.simps, auto)
qed

lemma strtol_nat_dec:
  assumes "\<not> is_digit c"
  shows "strtol (nat_dec n @ c # s) = Some (long_range (int n))"
proof -
  obtain d cs where h: "nat_dec n = digit d # cs" "d < 10" using nat_dec_head by blast
  with assms read_nat_dec [of 0 n "c # s"] show ?thesis by (auto simp: strtol_def)
qed

lemma strtol_neg_dec:
  assumes "\<not> is_digit c"
  shows "strtol (''-'' @ nat_dec n @ c # s) = Some (long_range (- int n))"
  using assms read_nat_dec [of 0 n "c # s"] by (auto simp: strtol_def is_space_def)

lemma long_range_sint: "long_range (sint v) = (v, False)"
  using sint_ge [of v] sint_lt [of v] by (simp add: long_range_def LONG_MAX_def LONG_MIN_def)

lemma newline [simp]: "\<not> is_digit (CHR 0x0A)" "is_space (CHR 0x0A)"
  by (simp_all add: is_digit_def is_space_def)

lemma strtol_sprintf: "strtol (sprintf_d v @ s) = Some (v, False)"
proof (cases "sint v < 0")
  case True
  with strtol_neg_dec [of "CHR 0x0A" "nat (- sint v)" s] show ?thesis
    by (simp add: sprintf_d_def int_dec_def long_range_sint)
next
  case False
  with strtol_nat_dec [of "CHR 0x0A" "nat (sint v)" s] show ?thesis
    by (simp add: sprintf_d_def int_dec_def long_range_sint)
qed

end
