(* ===== verification/Lights.thy ===== *)
theory Lights
  imports CLib
begin

text \<open>
  The lights module, \<^verbatim>\<open>liblights/lights.c\<close>. The static variables of the file are the record \<open>lights\<close>;
  the handlers run under \<open>g_lock\<close>, so each is one step (justified in theory \<open>Lights_Conc\<close>). The
  kernel's sysfs files are a parameter, which may answer every access depending on what happened before. The identifiers of the lights come from
  \<^verbatim>\<open>hardware/lights.h\<close>, which is not part of the tree, and are a parameter too.
\<close>

section \<open>State\<close>

record light_state =
  color :: cint
  flashMode :: cint
  flashOnMS :: cint
  flashOffMS :: cint
  brightnessMode :: cint

definition dark :: light_state where
  "dark = \<lparr>color = 0, flashMode = 0, flashOnMS = 0, flashOffMS = 0, brightnessMode = 0\<rparr>"

text \<open>What the module does to the outside: a text written to a file, an access that failed, the warning
  that a file cannot be opened, a pause in microseconds.\<close>

datatype io = Wrote string string | Failed string | Warned string | Slept nat

record lights =
  g_attention :: light_state
  g_notification :: light_state
  g_battery :: light_state
  g_speaker_light :: light_state
  old_backlight :: cint
  old_buttons :: cint
  already_warned :: bool
  trace :: "io list"

definition initial_lights :: lights where
  "initial_lights = \<lparr>g_attention = dark, g_notification = dark, g_battery = dark, g_speaker_light = dark,
     old_backlight = - 1, old_buttons = - 1, already_warned = False, trace = []\<rparr>"

definition LCD_0_FILE :: string where "LCD_0_FILE = ''/sys/class/backlight/lm3533-backlight0/brightness''"
definition LCD_1_FILE :: string where "LCD_1_FILE = ''/sys/class/backlight/lm3533-backlight1/brightness''"
definition BUTTON_FILE :: string where "BUTTON_FILE = ''/sys/class/leds/button-backlight/brightness''"
definition LED_RED_FILE :: string where "LED_RED_FILE = ''/sys/class/leds/red/brightness''"
definition LED_GREEN_FILE :: string where "LED_GREEN_FILE = ''/sys/class/leds/green/brightness''"
definition LED_BLUE_FILE :: string where "LED_BLUE_FILE = ''/sys/class/leds/blue/brightness''"
definition LED_UPDATE_FILE :: string where "LED_UPDATE_FILE = ''/sys/class/leds/red/update''"

lemmas file_defs = LCD_0_FILE_def LCD_1_FILE_def BUTTON_FILE_def LED_RED_FILE_def LED_GREEN_FILE_def
  LED_BLUE_FILE_def LED_UPDATE_FILE_def

section \<open>Writing\<close>

text \<open>How an access to a file ends; the argument is the number of bytes taken, or \<open>errno\<close> as the code reads it
  afterwards. A short write counts as success.\<close>

datatype access_result = Write_ok | Write_short nat | Write_fails cint | Open_fails cint

type_synonym sysfs = "io list \<Rightarrow> string \<Rightarrow> access_result"

definition write_int :: "sysfs \<Rightarrow> string \<Rightarrow> cint \<Rightarrow> lights \<Rightarrow> cint \<times> lights" where
  "write_int fs path value s =
    (case fs (trace s) path of
       Write_ok \<Rightarrow> (0, s\<lparr>trace := trace s @ [Wrote path (sprintf_d value)]\<rparr>)
     | Write_short n \<Rightarrow> (0, s\<lparr>trace := trace s @ [Wrote path (take n (sprintf_d value))]\<rparr>)
     | Write_fails errno \<Rightarrow> (- errno, s\<lparr>trace := trace s @ [Failed path]\<rparr>)
     | Open_fails errno \<Rightarrow>
         (- errno, if already_warned s then s\<lparr>trace := trace s @ [Failed path]\<rparr>
            else s\<lparr>trace := trace s @ [Failed path, Warned path], already_warned := True\<rparr>))"

definition is_lit :: "light_state \<Rightarrow> bool" where
  "is_lit state \<longleftrightarrow> color state AND 0x00ffffff \<noteq> 0"

text \<open>Both sums are small and not negative: the shift right is a division.\<close>

definition rgb_to_brightness :: "light_state \<Rightarrow> cint" where
  "rgb_to_brightness state =
    (let color = color state AND 0x00ffffff in
     drop_bit 8 (77 * (drop_bit 16 color AND 0x00ff) + 150 * (drop_bit 8 color AND 0x00ff) + 29 * (color AND 0x00ff)))"

definition rgb_to_brightness_2 :: "light_state \<Rightarrow> cint" where
  "rgb_to_brightness_2 state =
    (let color = color state AND 0x00ffffff in
     drop_bit 8 (2 * 77 * (drop_bit 16 color AND 0x00ff) + 2 * 150 * (drop_bit 8 color AND 0x00ff)
       + 2 * 29 * (color AND 0x00ff)))"

section \<open>Handlers\<close>

definition set_light_backlight :: "sysfs \<Rightarrow> light_state \<Rightarrow> lights \<Rightarrow> cint \<times> lights" where
  "set_light_backlight fs state s =
    (let brightness = rgb_to_brightness_2 state;
         (err, s) =
           (if sint (old_backlight s) < 0 \<or> old_backlight s \<noteq> brightness then
              (let (err, s) = write_int fs LCD_0_FILE (brightness div 2) s in
               if err = 0 then write_int fs LCD_1_FILE ((brightness + 1) div 2) s else (err, s))
            else (0, s)) in
     (err, s\<lparr>old_backlight := brightness\<rparr>))"

definition set_light_buttons :: "sysfs \<Rightarrow> light_state \<Rightarrow> lights \<Rightarrow> cint \<times> lights" where
  "set_light_buttons fs state s =
    (let brightness = rgb_to_brightness state;
         (err, s) =
           (if sint (old_buttons s) < 0 \<or> old_buttons s \<noteq> brightness then write_int fs BUTTON_FILE brightness s
            else (0, s)) in
     (err, s\<lparr>old_buttons := brightness\<rparr>))"

definition pause :: "nat \<Rightarrow> lights \<Rightarrow> lights" where
  "pause us s = s\<lparr>trace := trace s @ [Slept us]\<rparr>"

definition set_speaker_light_locked :: "sysfs \<Rightarrow> light_state \<Rightarrow> lights \<Rightarrow> cint \<times> lights" where
  "set_speaker_light_locked fs state s =
    (if color (g_speaker_light s) = color state then (0, s)
     else
       let s = s\<lparr>g_speaker_light := state\<rparr>;
           s = (if is_lit state then
                  let (_, s) = write_int fs LED_RED_FILE 0 s;
                      (_, s) = write_int fs LED_GREEN_FILE 0 s;
                      (_, s) = write_int fs LED_BLUE_FILE 0 s;
                      (_, s) = write_int fs LED_UPDATE_FILE 1 s in
                  pause 100000 s
                else s);
           (_, s) = write_int fs LED_RED_FILE (drop_bit 16 (color state) AND 0xFF) s;
           (_, s) = write_int fs LED_GREEN_FILE (drop_bit 8 (color state) AND 0xFF) s;
           (_, s) = write_int fs LED_BLUE_FILE (color state AND 0xFF) s in
       write_int fs LED_UPDATE_FILE 1 s)"

definition update_speaker_light_locked :: "sysfs \<Rightarrow> lights \<Rightarrow> cint \<times> lights" where
  "update_speaker_light_locked fs s =
    (if is_lit (g_attention s) then set_speaker_light_locked fs (g_attention s) s
     else if is_lit (g_notification s) then set_speaker_light_locked fs (g_notification s) s
     else set_speaker_light_locked fs (g_battery s) s)"

definition set_light_attention :: "sysfs \<Rightarrow> light_state \<Rightarrow> lights \<Rightarrow> cint \<times> lights" where
  "set_light_attention fs state s = update_speaker_light_locked fs (s\<lparr>g_attention := state\<rparr>)"

definition set_light_notifications :: "sysfs \<Rightarrow> light_state \<Rightarrow> lights \<Rightarrow> cint \<times> lights" where
  "set_light_notifications fs state s = update_speaker_light_locked fs (s\<lparr>g_notification := state\<rparr>)"

definition set_light_battery :: "sysfs \<Rightarrow> light_state \<Rightarrow> lights \<Rightarrow> cint \<times> lights" where
  "set_light_battery fs state s = update_speaker_light_locked fs (s\<lparr>g_battery := state\<rparr>)"

section \<open>Opening a light\<close>

datatype light = Backlight | Buttons | Attention | Notifications | Battery

text \<open>The device structures on the heap, each with the handler installed in it. \<open>p\<close> is the result of
  \<open>malloc\<close>; \<open>memset\<close> on a null pointer is a crash.\<close>

type_synonym devices = "addr \<rightharpoonup> light"

datatype open_result = Opened addr devices | Refused cint | Crash

definition open_lights :: "(light \<Rightarrow> string) \<Rightarrow> addr \<Rightarrow> string \<Rightarrow> devices \<Rightarrow> open_result" where
  "open_lights LIGHT_ID p name heap =
    (let new_device = (\<lambda>set_light. if p \<noteq> NULL then Opened p (heap(p \<mapsto> set_light)) else Crash) in
     if LIGHT_ID Backlight = name then new_device Backlight
     else if LIGHT_ID Buttons = name then new_device Buttons
     else if LIGHT_ID Attention = name then new_device Attention
     else if LIGHT_ID Notifications = name then new_device Notifications
     else if LIGHT_ID Battery = name then new_device Battery
     else Refused (- EINVAL))"

definition close_lights :: "addr \<Rightarrow> devices \<Rightarrow> cint \<times> devices" where
  "close_lights dev heap = (0, if dev \<noteq> NULL then heap(dev := None) else heap)"

text \<open>A call of \<open>dev->set_light\<close> on an opened light.\<close>

fun set_light :: "sysfs \<Rightarrow> light \<Rightarrow> light_state \<Rightarrow> lights \<Rightarrow> cint \<times> lights" where
  "set_light fs Backlight = set_light_backlight fs"
| "set_light fs Buttons = set_light_buttons fs"
| "set_light fs Attention = set_light_attention fs"
| "set_light fs Notifications = set_light_notifications fs"
| "set_light fs Battery = set_light_battery fs"

end
