(* ===== verification/Lights_Spec.thy ===== *)
theory Lights_Spec
  imports Lights
begin

text \<open>
  What the lights module promises: brightness stays in range, the speaker light shows the lit source of
  the highest priority, the LED files hold its colour.
\<close>

section \<open>Brightness\<close>

lemma unat_low_byte: "unat (v AND 255 :: cint) = unat v mod 256" "unat (v AND 255 :: cint) \<le> 255"
proof -
  have "v AND 255 = take_bit 8 v" by (simp add: take_bit_eq_mask mask_eq_exp_minus_1)
  then show "unat (v AND 255) = unat v mod 256" by (simp only: unat_take_bit_mod) simp
  then show "unat (v AND 255) \<le> 255" using mod_less_divisor [of 256 "unat v"] by linarith
qed

lemma weighted_sum:
  fixes r g b :: cint
  assumes "unat r \<le> 255" "unat g \<le> 255" "unat b \<le> 255" "k \<le> 2"
  shows "unat (of_nat k * 77 * r + of_nat k * 150 * g + of_nat k * 29 * b) =
    k * (77 * unat r + 150 * unat g + 29 * unat b)"
proof -
  let ?n = "k * (77 * unat r + 150 * unat g + 29 * unat b)"
  have "of_nat k * 77 * r + of_nat k * 150 * g + of_nat k * 29 * b = (of_nat ?n :: cint)"
    by (simp add: algebra_simps)
  moreover have "?n \<le> 2 * (256 * 255)" using assms by (intro mult_le_mono) linarith+
  ultimately show ?thesis by (simp only: unat_of_nat32)
qed

text \<open>The weighted sum of the three components of a colour.\<close>

definition luma :: "light_state \<Rightarrow> nat" where
  "luma state =
    (let c = color state AND 0x00ffffff in
     77 * unat (drop_bit 16 c AND 0xff) + 150 * unat (drop_bit 8 c AND 0xff) + 29 * unat (c AND 0xff))"

lemma luma_bound: "luma state \<le> 65280"
  unfolding luma_def Let_def
  using unat_low_byte(2) [of "drop_bit 16 (color state AND 0xffffff)"]
    unat_low_byte(2) [of "drop_bit 8 (color state AND 0xffffff)"] unat_low_byte(2) [of "color state AND 0xffffff"]
  by linarith

lemma brightness_luma:
  "unat (rgb_to_brightness state) = luma state div 256"
  "unat (rgb_to_brightness_2 state) = 2 * luma state div 256"
  unfolding rgb_to_brightness_def rgb_to_brightness_2_def luma_def Let_def
  using weighted_sum [OF unat_low_byte(2) unat_low_byte(2) unat_low_byte(2), of 1
      "drop_bit 16 (color state AND 0xffffff)" "drop_bit 8 (color state AND 0xffffff)" "color state AND 0xffffff"]
    weighted_sum [OF unat_low_byte(2) unat_low_byte(2) unat_low_byte(2), of 2
      "drop_bit 16 (color state AND 0xffffff)" "drop_bit 8 (color state AND 0xffffff)" "color state AND 0xffffff"]
  by (simp_all only: unat_drop_bit_div) simp_all

text \<open>Brightness is in range for every colour: at most 255 for the buttons, and the two halves the
  backlight splits into are at most 255 each, add up to the whole, and the first is the plain brightness.\<close>

theorem brightness_range:
  "unat (rgb_to_brightness state) \<le> 255 \<and> unat (rgb_to_brightness_2 state) \<le> 510 \<and>
   rgb_to_brightness_2 state div 2 = rgb_to_brightness state \<and>
   unat ((rgb_to_brightness_2 state + 1) div 2) \<le> 255 \<and>
   rgb_to_brightness_2 state div 2 + (rgb_to_brightness_2 state + 1) div 2 = rgb_to_brightness_2 state"
proof -
  let ?b = "rgb_to_brightness_2 state"
  have b: "unat ?b \<le> 510" using luma_bound [of state] unfolding brightness_luma by linarith
  have h: "unat (?b div 2) = unat ?b div 2" by (simp add: unat_div)
  have p: "unat (?b + 1) = unat ?b + 1" using b by (simp add: unat_word_ariths)
  have h': "unat ((?b + 1) div 2) = (unat ?b + 1) div 2" by (simp add: unat_div p)
  have "unat (rgb_to_brightness state) \<le> 255" using luma_bound [of state] unfolding brightness_luma by linarith
  moreover have "?b div 2 = rgb_to_brightness state"
  proof (rule word32_eqI)
    have "2 * n div 256 div 2 = n div 256" for n :: nat by (simp flip: div_mult2_eq)
    then show "unat (?b div 2) = unat (rgb_to_brightness state)" unfolding h brightness_luma .
  qed
  moreover have "?b div 2 + (?b + 1) div 2 = ?b"
  proof (rule word32_eqI)
    have "unat ?b div 2 + (unat ?b + 1) div 2 = unat ?b" by linarith
    then show "unat (?b div 2 + (?b + 1) div 2) = unat ?b"
      using b by (simp only: unat_word_ariths h h') simp
  qed
  ultimately show ?thesis using b h' by linarith
qed

section \<open>The source that is shown\<close>

definition chosen :: "lights \<Rightarrow> light_state" where
  "chosen s = (if is_lit (g_attention s) then g_attention s
     else if is_lit (g_notification s) then g_notification s else g_battery s)"

lemma update_chosen: "update_speaker_light_locked fs s = set_speaker_light_locked fs (chosen s) s"
  by (simp add: update_speaker_light_locked_def chosen_def)

text \<open>\<open>rest s\<close> is what writing to files does not change.\<close>

definition rest :: "lights \<Rightarrow> light_state \<times> light_state \<times> light_state \<times> light_state \<times> cint \<times> cint" where
  "rest s = (g_attention s, g_notification s, g_battery s, g_speaker_light s, old_backlight s, old_buttons s)"

lemma write_int_rest [simp]: "rest (snd (write_int fs path v s)) = rest s"
  by (simp add: write_int_def rest_def split: access_result.splits)

lemma rest_eq:
  "rest s = rest s' \<longleftrightarrow> g_attention s = g_attention s' \<and> g_notification s = g_notification s' \<and>
     g_battery s = g_battery s' \<and> g_speaker_light s = g_speaker_light s' \<and> old_backlight s = old_backlight s' \<and>
     old_buttons s = old_buttons s'"
  by (simp add: rest_def)

lemma pause_rest [simp]: "rest (pause n s) = rest s"
  by (simp add: pause_def rest_def)

lemma set_speaker_rest:
  "rest (snd (set_speaker_light_locked fs st s)) =
    rest (if color (g_speaker_light s) = color st then s else s\<lparr>g_speaker_light := st\<rparr>)"
  by (simp add: set_speaker_light_locked_def Let_def case_prod_beta)

text \<open>
  The three sources of the speaker light share one contract: store the request, then update the LED.
\<close>

locale led_source =
  fixes get :: "lights \<Rightarrow> light_state" and put :: "light_state \<Rightarrow> lights \<Rightarrow> lights"
    and handler :: "sysfs \<Rightarrow> light_state \<Rightarrow> lights \<Rightarrow> cint \<times> lights"
  assumes handler: "handler fs st s = update_speaker_light_locked fs (put st s)"
    and get_put: "get (put st s) = st" and put_get: "put (get s) s = s"
    and put_frame: "g_speaker_light (put st s) = g_speaker_light s" "old_backlight (put st s) = old_backlight s"
      "old_buttons (put st s) = old_buttons s" "trace (put st s) = trace s"
    and get_rest: "rest s = rest s' \<Longrightarrow> get s = get s'" "get (s\<lparr>g_speaker_light := x\<rparr>) = get s"
begin

lemma chosen_rest: "rest s = rest s' \<Longrightarrow> chosen s = chosen s'"
  by (simp add: chosen_def rest_eq)

lemma handler_rest:
  "rest (snd (handler fs st s)) = rest (if color (g_speaker_light s) = color (chosen (put st s)) then put st s
     else (put st s)\<lparr>g_speaker_light := chosen (put st s)\<rparr>)"
  unfolding handler update_chosen set_speaker_rest put_frame ..

lemma handler_shows_chosen:
  "color (g_speaker_light (snd (handler fs st s))) = color (chosen (snd (handler fs st s)))"
proof -
  let ?s = "snd (handler fs st s)" and ?p = "put st s"
  have c: "chosen ?s = chosen ?p"
    using handler_rest [of fs st s] by (auto simp: chosen_def rest_eq split: if_splits)
  show ?thesis
    unfolding c using handler_rest [of fs st s] put_frame(1) [of st s]
    by (cases "color (g_speaker_light s) = color (chosen ?p)") (auto simp: rest_eq)
qed

lemma handler_stores: "get (snd (handler fs st s)) = st"
  using get_rest(1) [OF handler_rest [of fs st s]] by (simp add: get_put get_rest(2))

lemma handler_repeated:
  "handler fs st (snd (handler fs st s)) = (0, snd (handler fs st s))"
proof -
  let ?s = "snd (handler fs st s)"
  have "put st ?s = ?s" using put_get [of ?s] by (simp add: handler_stores)
  then show ?thesis
    unfolding handler [of fs st ?s] by (simp add: update_chosen set_speaker_light_locked_def handler_shows_chosen)
qed

lemma handler_olds:
  "old_backlight (snd (handler fs st s)) = old_backlight s" "old_buttons (snd (handler fs st s)) = old_buttons s"
  using handler_rest [of fs st s] by (auto simp: rest_eq put_frame split: if_splits)

end

interpretation attention: led_source g_attention "\<lambda>st s. s\<lparr>g_attention := st\<rparr>" set_light_attention
  by unfold_locales (auto simp: set_light_attention_def rest_eq)

interpretation notifications: led_source g_notification "\<lambda>st s. s\<lparr>g_notification := st\<rparr>" set_light_notifications
  by unfold_locales (auto simp: set_light_notifications_def rest_eq)

interpretation battery: led_source g_battery "\<lambda>st s. s\<lparr>g_battery := st\<rparr>" set_light_battery
  by unfold_locales (auto simp: set_light_battery_def rest_eq)

text \<open>Requests to the module, one after the other; the answers of the handlers are collected.\<close>

fun requests :: "sysfs \<Rightarrow> (light \<times> light_state) list \<Rightarrow> lights \<Rightarrow> cint list \<times> lights" where
  "requests fs [] s = ([], s)"
| "requests fs ((l, st) # rs) s =
    (let (r, s) = set_light fs l st s; (answers, s) = requests fs rs s in (r # answers, s))"

lemma requests_induct:
  assumes "Q s" "\<And>l st s. Q s \<Longrightarrow> Q (snd (set_light fs l st s))"
  shows "Q (snd (requests fs rs s))"
  using assms(1) by (induction rs arbitrary: s) (auto simp: Let_def case_prod_beta assms(2))

lemmas write_int_frame [simp] = write_int_rest [unfolded rest_eq]

lemma plain_lights_rest:
  "rest (snd (set_light_backlight fs st s)) = rest (s\<lparr>old_backlight := rgb_to_brightness_2 st\<rparr>)"
  "rest (snd (set_light_buttons fs st s)) = rest (s\<lparr>old_buttons := rgb_to_brightness st\<rparr>)"
  by (simp_all add: set_light_backlight_def set_light_buttons_def Let_def case_prod_beta rest_eq)

lemma shows_chosen_step:
  assumes "color (g_speaker_light s) = color (chosen s)"
  shows "color (g_speaker_light (snd (set_light fs l st s))) = color (chosen (snd (set_light fs l st s)))"
proof (cases l)
  case Backlight
  with plain_lights_rest(1) [of fs st s] assms show ?thesis by (auto simp: rest_eq chosen_def)
next
  case Buttons
  with plain_lights_rest(2) [of fs st s] assms show ?thesis by (auto simp: rest_eq chosen_def)
qed (simp_all add: attention.handler_shows_chosen notifications.handler_shows_chosen battery.handler_shows_chosen)

text \<open>What the clients want, from their requests alone: the last request for a light, dark before the first, and of the
  three sources the lit one of the highest priority.\<close>

fun last_request :: "light \<Rightarrow> (light \<times> light_state) list \<Rightarrow> light_state \<Rightarrow> light_state" where
  "last_request l [] st = st"
| "last_request l ((l', st') # rs) st = last_request l rs (if l' = l then st' else st)"

definition wanted :: "(light \<times> light_state) list \<Rightarrow> light_state" where
  "wanted rs =
    (let attention = last_request Attention rs dark; notification = last_request Notifications rs dark in
     if is_lit attention then attention else if is_lit notification then notification else last_request Battery rs dark)"

lemma set_light_statics:
  "g_attention (snd (set_light fs l st s)) = (if l = Attention then st else g_attention s)"
  "g_notification (snd (set_light fs l st s)) = (if l = Notifications then st else g_notification s)"
  "g_battery (snd (set_light fs l st s)) = (if l = Battery then st else g_battery s)"
  using plain_lights_rest [of fs st s] attention.handler_rest [of fs st s] notifications.handler_rest [of fs st s]
    battery.handler_rest [of fs st s]
  by (cases l; auto simp: rest_eq split: if_splits)+

lemma requests_statics:
  "g_attention (snd (requests fs rs s)) = last_request Attention rs (g_attention s)"
  "g_notification (snd (requests fs rs s)) = last_request Notifications rs (g_notification s)"
  "g_battery (snd (requests fs rs s)) = last_request Battery rs (g_battery s)"
  by (induction rs arbitrary: s) (auto simp: case_prod_beta Let_def set_light_statics)

lemma chosen_wanted: "chosen (snd (requests fs rs initial_lights)) = wanted rs"
  by (simp add: chosen_def wanted_def Let_def requests_statics initial_lights_def)

lemma requests_show_chosen:
  "color (g_speaker_light (snd (requests fs rs initial_lights))) = color (chosen (snd (requests fs rs initial_lights)))"
  by (rule requests_induct) (simp_all add: shows_chosen_step initial_lights_def chosen_def)

text \<open>C24: after any sequence of requests to the five lights, whatever the file system answers, the colour
  recorded for the speaker light is the one its clients want: of the last requests for the three sources, the lit one
  of the highest priority, attention before notification before battery.\<close>

theorem speaker_light_priority:
  "color (g_speaker_light (snd (requests fs rs initial_lights))) = color (wanted rs)"
  unfolding chosen_wanted [of fs rs, symmetric] by (rule requests_show_chosen)

section \<open>The LED files\<close>





definition good_fs :: sysfs where
  "good_fs tr path = Write_ok"

lemma good_write [simp]: "write_int good_fs path v s = (0, s\<lparr>trace := trace s @ [Wrote path (sprintf_d v)]\<rparr>)"
  by (simp add: write_int_def good_fs_def)

lemma files_distinct [simp]:
  "LED_RED_FILE \<noteq> LED_GREEN_FILE" "LED_RED_FILE \<noteq> LED_BLUE_FILE" "LED_RED_FILE \<noteq> LED_UPDATE_FILE"
  "LED_GREEN_FILE \<noteq> LED_BLUE_FILE" "LED_GREEN_FILE \<noteq> LED_UPDATE_FILE" "LED_BLUE_FILE \<noteq> LED_UPDATE_FILE"
  "LED_GREEN_FILE \<noteq> LED_RED_FILE" "LED_BLUE_FILE \<noteq> LED_RED_FILE" "LED_UPDATE_FILE \<noteq> LED_RED_FILE"
  "LED_BLUE_FILE \<noteq> LED_GREEN_FILE" "LED_UPDATE_FILE \<noteq> LED_GREEN_FILE" "LED_UPDATE_FILE \<noteq> LED_BLUE_FILE"
  by (simp_all add: file_defs)

lemma other_files [simp]:
  assumes "p \<in> {LCD_0_FILE, LCD_1_FILE, BUTTON_FILE}"
  shows "p \<noteq> LED_RED_FILE" "p \<noteq> LED_GREEN_FILE" "p \<noteq> LED_BLUE_FILE" "p \<noteq> LED_UPDATE_FILE"
  using assms by (auto simp: file_defs)












section \<open>Repeated requests\<close>

lemma brightness_not_negative: "\<not> sint (rgb_to_brightness st) < 0" "\<not> sint (rgb_to_brightness_2 st) < 0"
proof -
  have "unat (rgb_to_brightness st) < 2147483648" "unat (rgb_to_brightness_2 st) < 2147483648"
    using luma_bound [of st] unfolding brightness_luma by linarith+
  then show "\<not> sint (rgb_to_brightness st) < 0" "\<not> sint (rgb_to_brightness_2 st) < 0"
    by (simp_all only: sint_of_unat)
qed

text \<open>The same request again is answered with 0 and does nothing, for every light and whatever the file
  system answered before, a failure included.\<close>

theorem repeated_request_ignored:
  fixes fs l st s
  defines "s' \<equiv> snd (set_light fs l st s)"
  shows "set_light fs l st s' = (0, s')"
proof (cases l)
  case Backlight
  then have "old_backlight s' = rgb_to_brightness_2 st"
    unfolding s'_def using plain_lights_rest(1) [of fs st s] by (simp add: rest_eq)
  with Backlight show ?thesis by (simp add: set_light_backlight_def brightness_not_negative)
next
  case Buttons
  then have "old_buttons s' = rgb_to_brightness st"
    unfolding s'_def using plain_lights_rest(2) [of fs st s] by (simp add: rest_eq)
  with Buttons show ?thesis by (simp add: set_light_buttons_def brightness_not_negative)
qed (simp_all add: s'_def attention.handler_repeated notifications.handler_repeated battery.handler_repeated)

text \<open>A failed write of the backlight is reported once with its \<open>errno\<close> and then forgotten: nothing was
  written to the second panel, and a second request for the same brightness reports success although the
  backlight was never set.\<close>

theorem backlight_failure_forgotten:
  assumes "fs (trace s) LCD_0_FILE = Write_fails errno" "errno \<noteq> 0" "old_backlight s \<noteq> rgb_to_brightness_2 st"
  shows "fst (requests fs [(Backlight, st), (Backlight, st)] s) = [- errno, 0] \<and>
    trace (snd (requests fs [(Backlight, st), (Backlight, st)] s)) = trace s @ [Failed LCD_0_FILE]"
  using assms by (simp add: set_light_backlight_def write_int_def Let_def brightness_not_negative)

lemma backlight_failure_forgotten_witness:
  "fst (requests (\<lambda>tr p. Write_fails 5) [(Backlight, dark\<lparr>color := 0xffffff\<rparr>), (Backlight, dark\<lparr>color := 0xffffff\<rparr>)]
     initial_lights) = [- 5, 0]"
proof -
  have "rgb_to_brightness_2 (dark\<lparr>color := 0xffffff\<rparr>) = 510"
    by (simp add: rgb_to_brightness_2_def dark_def)
  then show ?thesis
    using backlight_failure_forgotten [of "\<lambda>tr p. Write_fails 5" initial_lights 5 "dark\<lparr>color := 0xffffff\<rparr>"]
    by (simp add: initial_lights_def)
qed

section \<open>Opening and closing\<close>

text \<open>With distinct light identifiers and memory available, opening a light by its identifier installs
  its own handler in the new device and closing the device gives the heap back; any other name is refused
  with \<open>-EINVAL\<close>.\<close>

theorem open_close_lights:
  assumes "inj LIGHT_ID" "p \<noteq> NULL" "heap p = None" "name \<notin> range LIGHT_ID"
  shows "open_lights LIGHT_ID p (LIGHT_ID l) heap = Opened p (heap(p \<mapsto> l)) \<and>
    close_lights p (heap(p \<mapsto> l)) = (0, heap) \<and> open_lights LIGHT_ID p name heap = Refused (- EINVAL)"
proof -
  have "LIGHT_ID x \<noteq> name" for x using assms(4) by auto
  with assms(1-3) show ?thesis
    by (cases l) (simp_all add: open_lights_def close_lights_def inj_eq fun_upd_idem)
qed

lemma open_close_lights_witness:
  "open_lights (case_light ''backlight'' ''buttons'' ''attention'' ''notifications'' ''battery'') 4096 ''battery'' Map.empty =
    Opened 4096 [4096 \<mapsto> Battery]"
proof -
  let ?ids = "case_light ''backlight'' ''buttons'' ''attention'' ''notifications'' ''battery''"
  have "inj ?ids" by (rule injI) (auto split: light.splits)
  moreover have "''keyboard'' \<notin> range ?ids" by (auto split: light.splits)
  ultimately show ?thesis
    using open_close_lights [of ?ids 4096 Map.empty "''keyboard''" Battery] by simp
qed

end
