(* ===== verification/Lights_Conc.thy ===== *)
theory Lights_Conc
  imports Lights_Spec
begin

text \<open>
  The handlers of \<^verbatim>\<open>liblights/lights.c\<close> called by several threads. Each handler is a script of single accesses
  to the static variables and the files, all of them between \<open>pthread_mutex_lock(&g_lock)\<close> and the unlock;
  threads take turns after every access, a whole \<open>write_int\<close> being one. The lock is the one of the system's C library, of which only the
  contract is used: it is handed to one thread at a time.
\<close>

section \<open>Scripts\<close>

datatype script =
    Answer cint
  | Write string cint "cint \<Rightarrow> script"
  | Look "lights \<Rightarrow> script"
  | Assign "lights \<Rightarrow> lights" script

text \<open>One access, and the whole script without interruption.\<close>

fun script_step :: "sysfs \<Rightarrow> script \<Rightarrow> lights \<Rightarrow> (script \<times> lights) option" where
  "script_step fs (Answer r) s = None"
| "script_step fs (Write path v k) s = (let (err, s') = write_int fs path v s in Some (k err, s'))"
| "script_step fs (Look k) s = Some (k s, s)"
| "script_step fs (Assign f p) s = Some (p, f s)"

primrec run_script :: "sysfs \<Rightarrow> script \<Rightarrow> lights \<Rightarrow> cint \<times> lights" where
  "run_script fs (Answer r) s = (r, s)"
| "run_script fs (Write path v k) s = (let (err, s') = write_int fs path v s in run_script fs (k err) s')"
| "run_script fs (Look k) s = run_script fs (k s) s"
| "run_script fs (Assign f p) s = run_script fs p (f s)"

lemma script_step_run: "script_step fs p s = Some (p', s') \<Longrightarrow> run_script fs p' s' = run_script fs p s"
  by (cases p) (auto simp: Let_def split: prod.splits)

definition backlight_script :: "light_state \<Rightarrow> script" where
  "backlight_script state =
    (let brightness = rgb_to_brightness_2 state;
         leave = (\<lambda>err. Assign (\<lambda>s. s\<lparr>old_backlight := brightness\<rparr>) (Answer err)) in
     Look (\<lambda>s. if sint (old_backlight s) < 0 \<or> old_backlight s \<noteq> brightness
       then Write LCD_0_FILE (brightness div 2)
         (\<lambda>err. if err = 0 then Write LCD_1_FILE ((brightness + 1) div 2) leave else leave err)
       else leave 0))"

definition buttons_script :: "light_state \<Rightarrow> script" where
  "buttons_script state =
    (let brightness = rgb_to_brightness state;
         leave = (\<lambda>err. Assign (\<lambda>s. s\<lparr>old_buttons := brightness\<rparr>) (Answer err)) in
     Look (\<lambda>s. if sint (old_buttons s) < 0 \<or> old_buttons s \<noteq> brightness then Write BUTTON_FILE brightness leave else leave 0))"

definition speaker_script :: "light_state \<Rightarrow> script" where
  "speaker_script state =
    (let show = Write LED_RED_FILE (drop_bit 16 (color state) AND 0xFF)
           (\<lambda>_. Write LED_GREEN_FILE (drop_bit 8 (color state) AND 0xFF)
           (\<lambda>_. Write LED_BLUE_FILE (color state AND 0xFF)
           (\<lambda>_. Write LED_UPDATE_FILE 1 Answer))) in
     Look (\<lambda>s. if color (g_speaker_light s) = color state then Answer 0
       else Assign (\<lambda>s. s\<lparr>g_speaker_light := state\<rparr>)
         (if is_lit state
          then Write LED_RED_FILE 0 (\<lambda>_. Write LED_GREEN_FILE 0 (\<lambda>_. Write LED_BLUE_FILE 0
            (\<lambda>_. Write LED_UPDATE_FILE 1 (\<lambda>_. Assign (pause 100000) show))))
          else show)))"

definition update_script :: script where
  "update_script =
    Look (\<lambda>s. if is_lit (g_attention s) then speaker_script (g_attention s)
      else Look (\<lambda>s. if is_lit (g_notification s) then speaker_script (g_notification s)
        else Look (\<lambda>s. speaker_script (g_battery s))))"

text \<open>What each handler does between lock and unlock.\<close>

fun critical_section :: "light \<Rightarrow> light_state \<Rightarrow> script" where
  "critical_section Backlight st = backlight_script st"
| "critical_section Buttons st = buttons_script st"
| "critical_section Attention st = Assign (\<lambda>s. s\<lparr>g_attention := st\<rparr>) update_script"
| "critical_section Notifications st = Assign (\<lambda>s. s\<lparr>g_notification := st\<rparr>) update_script"
| "critical_section Battery st = Assign (\<lambda>s. s\<lparr>g_battery := st\<rparr>) update_script"

lemma speaker_script_run: "run_script fs (speaker_script st) s = set_speaker_light_locked fs st s"
  by (simp add: speaker_script_def set_speaker_light_locked_def Let_def case_prod_beta)

lemma update_script_run: "run_script fs update_script s = update_speaker_light_locked fs s"
  by (simp add: update_script_def update_speaker_light_locked_def speaker_script_run)

lemma critical_section_run: "run_script fs (critical_section l st) s = set_light fs l st s"
proof (cases l)
  case Backlight
  then show ?thesis by (auto simp: backlight_script_def set_light_backlight_def Let_def case_prod_beta)
next
  case Buttons
  then show ?thesis by (auto simp: buttons_script_def set_light_buttons_def Let_def case_prod_beta)
qed (simp_all add: update_script_run set_light_attention_def set_light_notifications_def set_light_battery_def)

section \<open>Threads\<close>

datatype lights_act =
    Away                                   \<comment> \<open>outside the module\<close>
  | At_lock light light_state              \<comment> \<open>in \<open>pthread_mutex_lock(&g_lock)\<close>\<close>
  | Inside light light_state script        \<comment> \<open>holding \<open>g_lock\<close>\<close>

text \<open>\<open>served\<close> lists the finished calls in the order they released the lock, with their answers.\<close>

record lights_sys =
  statics :: lights
  g_lock :: "cint option"
  acts :: "cint \<Rightarrow> lights_act"
  served :: "((light \<times> light_state) \<times> cint) list"

inductive lights_step :: "sysfs \<Rightarrow> lights_sys \<Rightarrow> lights_sys \<Rightarrow> bool" for fs :: sysfs where
  call: "acts \<sigma> t = Away \<Longrightarrow> lights_step fs \<sigma> (\<sigma>\<lparr>acts := (acts \<sigma>)(t := At_lock l st)\<rparr>)"
| acquire: "acts \<sigma> t = At_lock l st \<Longrightarrow> g_lock \<sigma> = None \<Longrightarrow>
    lights_step fs \<sigma> (\<sigma>\<lparr>g_lock := Some t, acts := (acts \<sigma>)(t := Inside l st (critical_section l st))\<rparr>)"
| access: "acts \<sigma> t = Inside l st p \<Longrightarrow> script_step fs p (statics \<sigma>) = Some (p', s') \<Longrightarrow>
    lights_step fs \<sigma> (\<sigma>\<lparr>statics := s', acts := (acts \<sigma>)(t := Inside l st p')\<rparr>)"
| release: "acts \<sigma> t = Inside l st (Answer r) \<Longrightarrow>
    lights_step fs \<sigma> (\<sigma>\<lparr>g_lock := None, acts := (acts \<sigma>)(t := Away), served := served \<sigma> @ [((l, st), r)]\<rparr>)"

inductive lights_run :: "sysfs \<Rightarrow> lights_sys \<Rightarrow> lights_sys \<Rightarrow> bool" for fs :: sysfs and \<sigma>0 :: lights_sys where
  start: "lights_run fs \<sigma>0 \<sigma>0"
| step: "lights_run fs \<sigma>0 \<sigma> \<Longrightarrow> lights_step fs \<sigma> \<sigma>' \<Longrightarrow> lights_run fs \<sigma>0 \<sigma>'"

definition initial_sys :: lights_sys where
  "initial_sys = \<lparr>statics = initial_lights, g_lock = None, acts = (\<lambda>_. Away), served = []\<rparr>"

section \<open>Serialisation\<close>

lemma requests_snoc:
  "requests fs (rs @ [(l, st)]) s =
    (let (answers, s') = requests fs rs s; (r, s'') = set_light fs l st s' in (answers @ [r], s''))"
  by (induction rs arbitrary: s) (auto simp: Let_def split: prod.splits)

text \<open>Finishing the call of the thread that holds the lock, if there is one, gives the state that the
  finished calls and this one reach one after the other.\<close>

definition serial :: "sysfs \<Rightarrow> lights_sys \<Rightarrow> bool" where
  "serial fs \<sigma> \<longleftrightarrow>
    (let (answers, s) = requests fs (map fst (served \<sigma>)) initial_lights in
     answers = map snd (served \<sigma>) \<and>
     (case g_lock \<sigma> of
        None \<Rightarrow> statics \<sigma> = s
      | Some t \<Rightarrow> \<exists>l st p. acts \<sigma> t = Inside l st p \<and> run_script fs p (statics \<sigma>) = set_light fs l st s)) \<and>
    (\<forall>t l st p. acts \<sigma> t = Inside l st p \<longrightarrow> g_lock \<sigma> = Some t)"

lemma serial_inside:
  assumes "serial fs \<sigma>" "acts \<sigma> t = Inside l st p"
  shows "g_lock \<sigma> = Some t"
    "run_script fs p (statics \<sigma>) = set_light fs l st (snd (requests fs (map fst (served \<sigma>)) initial_lights))"
proof -
  show lock: "g_lock \<sigma> = Some t" using assms by (simp add: serial_def)
  with assms show "run_script fs p (statics \<sigma>) = set_light fs l st (snd (requests fs (map fst (served \<sigma>)) initial_lights))"
    by (auto simp: serial_def split: prod.splits)
qed

lemma serial_step: "lights_step fs \<sigma> \<sigma>' \<Longrightarrow> serial fs \<sigma> \<Longrightarrow> serial fs \<sigma>'"
proof (induction rule: lights_step.induct)
  case (call \<sigma> t l st)
  then show ?case by (auto simp: serial_def split: option.splits)
next
  case (acquire \<sigma> t l st)
  then show ?case by (auto simp: serial_def critical_section_run split: prod.splits)
next
  case (access \<sigma> t l st p p' s')
  note lock = serial_inside [OF access(3,1)]
  with access show ?case
    by (auto simp: serial_def script_step_run split: prod.splits)
next
  case (release \<sigma> t l st r)
  note lock = serial_inside [OF release(2,1)]
  with release show ?case
    by (auto simp: serial_def requests_snoc Let_def split: prod.splits if_splits)
qed

lemma serial_run: "lights_run fs initial_sys \<sigma> \<Longrightarrow> serial fs \<sigma>"
  by (induction rule: lights_run.induct) (simp_all add: serial_step, simp add: initial_sys_def serial_def)

text \<open>C26: the handlers are serialised by \<open>g_lock\<close>. However many threads call them and however their accesses
  interleave, whenever the lock is free the static variables and everything written to the files, and the
  answers the callers got, are those of the same requests made one after the other, in the order in which
  the lock was released; so the recorded colour is still that of the lit source of the highest priority.\<close>

theorem handlers_serialised:
  assumes "lights_run fs initial_sys \<sigma>" "g_lock \<sigma> = None"
  shows "requests fs (map fst (served \<sigma>)) initial_lights = (map snd (served \<sigma>), statics \<sigma>) \<and>
    color (g_speaker_light (statics \<sigma>)) = color (chosen (statics \<sigma>))"
proof -
  have "requests fs (map fst (served \<sigma>)) initial_lights = (map snd (served \<sigma>), statics \<sigma>)"
    using serial_run [OF assms(1)] assms(2) by (auto simp: serial_def split: prod.splits)
  with requests_show_chosen [of fs "map fst (served \<sigma>)"] show ?thesis by simp
qed

text \<open>Nobody is stuck: as long as a thread is inside the module, there is a step that is not a new call.\<close>

lemma handlers_progress:
  assumes "lights_run fs initial_sys \<sigma>" "acts \<sigma> t \<noteq> Away"
  shows "\<exists>\<sigma>'. lights_step fs \<sigma> \<sigma>' \<and> (\<forall>u. acts \<sigma> u = Away \<longrightarrow> acts \<sigma>' u = Away)"
proof (cases "g_lock \<sigma>")
  case None
  then have "\<And>l st p. acts \<sigma> t \<noteq> Inside l st p" using serial_inside(1) [OF serial_run [OF assms(1)]] by fastforce
  with assms(2) obtain l st where t: "acts \<sigma> t = At_lock l st" by (cases "acts \<sigma> t") auto
  from lights_step.acquire [OF t None] show ?thesis by - (intro exI conjI, assumption, simp add: t)
next
  case (Some u)
  then obtain l st p where u: "acts \<sigma> u = Inside l st p"
    using serial_run [OF assms(1)] by (auto simp: serial_def split: prod.splits)
  show ?thesis
  proof (cases "script_step fs p (statics \<sigma>)")
    case None
    then obtain r where "p = Answer r" by (cases p) (auto simp: Let_def split: prod.splits)
    with u have "acts \<sigma> u = Inside l st (Answer r)" by simp
    from lights_step.release [OF this] show ?thesis by - (intro exI conjI, assumption, simp add: u)
  next
    case (Some q)
    then have "script_step fs p (statics \<sigma>) = Some (fst q, snd q)" by simp
    from lights_step.access [OF u this] show ?thesis by - (intro exI conjI, assumption, simp add: u)
  qed
qed

section \<open>A concrete run\<close>

text \<open>An event is a call or the next step of a thread inside the module.\<close>

datatype lights_event = Calls cint light light_state | Goes cint

fun lights_next :: "sysfs \<Rightarrow> lights_event \<Rightarrow> lights_sys \<Rightarrow> lights_sys option" where
  "lights_next fs (Calls t l st) \<sigma> =
    (case acts \<sigma> t of Away \<Rightarrow> Some (\<sigma>\<lparr>acts := (acts \<sigma>)(t := At_lock l st)\<rparr>) | _ \<Rightarrow> None)"
| "lights_next fs (Goes t) \<sigma> =
    (case acts \<sigma> t of
       Away \<Rightarrow> None
     | At_lock l st \<Rightarrow>
         if g_lock \<sigma> = None
         then Some (\<sigma>\<lparr>g_lock := Some t, acts := (acts \<sigma>)(t := Inside l st (critical_section l st))\<rparr>) else None
     | Inside l st p \<Rightarrow>
         (case p of
            Answer r \<Rightarrow> Some (\<sigma>\<lparr>g_lock := None, acts := (acts \<sigma>)(t := Away), served := served \<sigma> @ [((l, st), r)]\<rparr>)
          | _ \<Rightarrow> map_option (\<lambda>(p', s'). \<sigma>\<lparr>statics := s', acts := (acts \<sigma>)(t := Inside l st p')\<rparr>)
                   (script_step fs p (statics \<sigma>))))"

fun lights_play :: "sysfs \<Rightarrow> lights_event list \<Rightarrow> lights_sys \<Rightarrow> lights_sys option" where
  "lights_play fs [] \<sigma> = Some \<sigma>"
| "lights_play fs (e # es) \<sigma> = (case lights_next fs e \<sigma> of None \<Rightarrow> None | Some \<sigma>' \<Rightarrow> lights_play fs es \<sigma>')"

lemma lights_next_sound: "lights_next fs e \<sigma> = Some \<sigma>' \<Longrightarrow> lights_step fs \<sigma> \<sigma>'"
proof (cases e)
  case (Goes t)
  assume n: "lights_next fs e \<sigma> = Some \<sigma>'"
  show ?thesis
  proof (cases "acts \<sigma> t")
    case (Inside l st p)
    with n Goes show ?thesis
      by (cases p) (auto simp del: script_step.simps intro: lights_step.release lights_step.access)
  qed (use n Goes in \<open>auto split: if_splits intro: lights_step.acquire\<close>)
qed (auto split: lights_act.splits intro: lights_step.call)

lemma lights_play_sound: "lights_play fs es \<sigma> = Some \<sigma>' \<Longrightarrow> lights_run fs \<sigma>0 \<sigma> \<Longrightarrow> lights_run fs \<sigma>0 \<sigma>'"
  by (induction es arbitrary: \<sigma>) (auto split: option.splits dest: lights_next_sound intro: lights_run.step)

text \<open>A second request arrives while the first one is being served.\<close>

definition two_requests :: "lights_event list" where
  "two_requests = [Calls 1 Buttons (dark\<lparr>color := 0xffffff\<rparr>), Goes 1, Goes 1, Calls 2 Battery dark,
     Goes 1, Goes 1, Goes 1, Goes 2, Goes 2, Goes 2, Goes 2, Goes 2, Goes 2, Goes 2]"

lemma two_requests_run:
  "\<exists>\<sigma>. lights_play good_fs two_requests initial_sys = Some \<sigma> \<and> g_lock \<sigma> = None \<and>
    map fst (served \<sigma>) = [(Buttons, dark\<lparr>color := 0xffffff\<rparr>), (Battery, dark)]"
  by (simp add: two_requests_def initial_sys_def initial_lights_def dark_def buttons_script_def update_script_def
      speaker_script_def is_lit_def rgb_to_brightness_def Let_def)

lemma handlers_serialised_witness:
  "\<exists>\<sigma>. lights_run good_fs initial_sys \<sigma> \<and>
    requests good_fs [(Buttons, dark\<lparr>color := 0xffffff\<rparr>), (Battery, dark)] initial_lights =
      (map snd (served \<sigma>), statics \<sigma>)"
proof -
  obtain \<sigma> where p: "lights_play good_fs two_requests initial_sys = Some \<sigma>" and s: "g_lock \<sigma> = None"
      "map fst (served \<sigma>) = [(Buttons, dark\<lparr>color := 0xffffff\<rparr>), (Battery, dark)]"
    using two_requests_run by metis
  note run = lights_play_sound [OF p lights_run.start]
  from handlers_serialised [OF run s(1)] run show ?thesis unfolding s(2) by blast
qed

end
