(* ===== verification/Hal.thy ===== *)
theory Hal
  imports Lights_Spec
begin

text \<open>
  The module interface through which Android reaches the lights (the descriptor at the end of
  \<^verbatim>\<open>liblights/lights.c\<close>) and an NFC controller (the inline functions of \<^verbatim>\<open>include/hardware/nfc.h\<close>). A module is a
  table with one method, \<open>open\<close>; a device carries its own \<open>close\<close>. The contract of such a table is the locale
  \<open>hal\<close>; the lights module is an instance of it, and the NFC functions are clients.
\<close>

section \<open>Modules and devices\<close>

text \<open>\<open>open\<close> gets a name and \<open>*device\<close>; it returns its result, \<open>*device\<close> and the heap afterwards, or crashes.\<close>

type_synonym 'h hw_open = "string \<Rightarrow> addr \<Rightarrow> 'h \<Rightarrow> (cint \<times> addr \<times> 'h) option"
type_synonym 'h hw_close = "addr \<Rightarrow> 'h \<Rightarrow> cint \<times> 'h"

record 'h hw_module =
  module_tag :: cint
  version_major :: cint
  version_minor :: cint
  module_id :: string
  module_title :: string
  module_author :: string
  methods_open :: "'h hw_open"

section \<open>The lights module\<close>

text \<open>The table \<open>lights_module_methods\<close>: \<open>open_lights\<close>, which stores the new device in \<open>*device\<close>. The identifiers
  of the lights and the result of \<open>malloc\<close> are parameters, as in theory \<open>Lights\<close>.\<close>

definition lights_module_methods :: "(light \<Rightarrow> string) \<Rightarrow> addr \<Rightarrow> devices hw_open" where
  "lights_module_methods LIGHT_ID p name device heap =
    (case open_lights LIGHT_ID p name heap of
       Opened q heap' \<Rightarrow> Some (0, q, heap')
     | Refused err \<Rightarrow> Some (err, device, heap)
     | Crash \<Rightarrow> None)"

text \<open>The tag and the identifier come from \<^verbatim>\<open>hardware.h\<close> and \<^verbatim>\<open>lights.h\<close>, which are not in the tree.\<close>

definition HAL_MODULE_INFO_SYM :: "cint \<Rightarrow> string \<Rightarrow> (light \<Rightarrow> string) \<Rightarrow> addr \<Rightarrow> devices hw_module" where
  "HAL_MODULE_INFO_SYM HARDWARE_MODULE_TAG LIGHTS_HARDWARE_MODULE_ID LIGHT_ID p =
    \<lparr>module_tag = HARDWARE_MODULE_TAG, version_major = 1, version_minor = 0, module_id = LIGHTS_HARDWARE_MODULE_ID,
     module_title = ''NVIDIA Pluto lights module'', module_author = ''Xuefer'',
     methods_open = lights_module_methods LIGHT_ID p\<rparr>"

text \<open>\<open>dev->common.close\<close> of a device of the module; \<open>None\<close> when there is no device.\<close>

definition lights_common_close :: "devices \<Rightarrow> addr \<Rightarrow> devices hw_close option" where
  "lights_common_close heap dev = map_option (\<lambda>_. close_lights) (heap dev)"

section \<open>The NFC functions\<close>

definition NFC_NCI_CONTROLLER :: string where "NFC_NCI_CONTROLLER = ''nci''"
definition NFC_PN544_CONTROLLER :: string where "NFC_PN544_CONTROLLER = ''pn544''"

definition nfc_nci_open :: "'h hw_module \<Rightarrow> addr \<Rightarrow> 'h \<Rightarrow> (cint \<times> addr \<times> 'h) option" where
  "nfc_nci_open module dev heap = methods_open module NFC_NCI_CONTROLLER dev heap"

definition nfc_nci_close :: "('h \<Rightarrow> addr \<Rightarrow> 'h hw_close option) \<Rightarrow> addr \<Rightarrow> 'h \<Rightarrow> (cint \<times> 'h) option" where
  "nfc_nci_close common_close dev heap = map_option (\<lambda>close. close dev heap) (common_close heap dev)"

definition nfc_pn544_open :: "'h hw_module \<Rightarrow> addr \<Rightarrow> 'h \<Rightarrow> (cint \<times> addr \<times> 'h) option" where
  "nfc_pn544_open module dev heap = methods_open module NFC_PN544_CONTROLLER dev heap"

definition nfc_pn544_close :: "('h \<Rightarrow> addr \<Rightarrow> 'h hw_close option) \<Rightarrow> addr \<Rightarrow> 'h \<Rightarrow> (cint \<times> 'h) option" where
  "nfc_pn544_close common_close dev heap = map_option (\<lambda>close. close dev heap) (common_close heap dev)"

section \<open>The contract of a module\<close>

text \<open>A known name opens a device whose \<open>close\<close> gives back what it took; any other name is refused with a
  result that is not 0, and nothing is touched.\<close>

locale hal =
  fixes module :: "'h hw_module" and common_close :: "'h \<Rightarrow> addr \<Rightarrow> 'h hw_close option"
    and known :: "string set" and ready :: "'h \<Rightarrow> bool" and refusal :: cint
  assumes refusal: "refusal \<noteq> 0"
    and open_known: "name \<in> known \<Longrightarrow> ready heap \<Longrightarrow> \<exists>q heap' close. methods_open module name dev heap = Some (0, q, heap') \<and>
      common_close heap' q = Some close \<and> close q heap' = (0, heap)"
    and open_unknown: "name \<notin> known \<Longrightarrow> ready heap \<Longrightarrow> methods_open module name dev heap = Some (refusal, dev, heap)"
begin

lemma open_result_known: "ready heap \<Longrightarrow> methods_open module name dev heap = Some (0, q, heap') \<Longrightarrow> name \<in> known"
  using refusal open_unknown by (cases "name \<in> known") auto

text \<open>The two NFC controllers: opened and closed they leave the heap as it was, whatever the module knows.\<close>

lemma nci_session:
  assumes "ready heap" "nfc_nci_open module dev heap = Some (0, q, heap')"
  shows "nfc_nci_close common_close q heap' = Some (0, heap)"
  using open_known [OF open_result_known [OF assms(1) assms(2) [unfolded nfc_nci_open_def]] assms(1), of dev] assms(2)
  by (auto simp: nfc_nci_open_def nfc_nci_close_def)

lemma pn544_session:
  assumes "ready heap" "nfc_pn544_open module dev heap = Some (0, q, heap')"
  shows "nfc_pn544_close common_close q heap' = Some (0, heap)"
  using open_known [OF open_result_known [OF assms(1) assms(2) [unfolded nfc_pn544_open_def]] assms(1), of dev] assms(2)
  by (auto simp: nfc_pn544_open_def nfc_pn544_close_def)

lemma nfc_refused:
  assumes "ready heap" "NFC_NCI_CONTROLLER \<notin> known" "NFC_PN544_CONTROLLER \<notin> known"
  shows "nfc_nci_open module dev heap = Some (refusal, dev, heap)"
    "nfc_pn544_open module dev heap = Some (refusal, dev, heap)"
  using assms by (simp_all add: nfc_nci_open_def nfc_pn544_open_def open_unknown)

end

lemma open_lights_known:
  assumes "p \<noteq> NULL"
  shows "(\<exists>l. name = LIGHT_ID l \<and> open_lights LIGHT_ID p name heap = Opened p (heap(p \<mapsto> l))) \<or>
    name \<notin> range LIGHT_ID \<and> open_lights LIGHT_ID p name heap = Refused (- EINVAL)"
proof (cases "name \<in> range LIGHT_ID")
  case True
  then obtain x where x: "LIGHT_ID x = name" by auto
  let ?opened = "\<lambda>l. LIGHT_ID l = name \<and> open_lights LIGHT_ID p name heap = Opened p (heap(p \<mapsto> l))"
  have "?opened Backlight \<or> ?opened Buttons \<or> ?opened Attention \<or> ?opened Notifications \<or> ?opened Battery"
    using x assms by (cases x) (simp_all add: open_lights_def)
  then show ?thesis by metis
next
  case False
  then have "LIGHT_ID l \<noteq> name" for l by auto
  with False show ?thesis by (simp add: open_lights_def)
qed

interpretation lights_hal: hal "HAL_MODULE_INFO_SYM tag ident LIGHT_ID p" lights_common_close "range LIGHT_ID"
    "\<lambda>heap. p \<noteq> NULL \<and> heap p = None" "- EINVAL" for tag ident LIGHT_ID p
proof
  show "- EINVAL \<noteq> 0" by (simp add: errno_defs)
next
  fix name dev and heap :: devices
  assume name: "name \<in> range LIGHT_ID" and heap: "p \<noteq> NULL \<and> heap p = None"
  from name heap open_lights_known [of p name LIGHT_ID heap]
  obtain l where "open_lights LIGHT_ID p name heap = Opened p (heap(p \<mapsto> l))" by auto
  with heap show "\<exists>q heap' close. methods_open (HAL_MODULE_INFO_SYM tag ident LIGHT_ID p) name dev heap = Some (0, q, heap') \<and>
      lights_common_close heap' q = Some close \<and> close q heap' = (0, heap)"
    by (auto simp: HAL_MODULE_INFO_SYM_def lights_module_methods_def lights_common_close_def close_lights_def)
next
  fix name dev and heap :: devices
  assume "name \<notin> range LIGHT_ID" "p \<noteq> NULL \<and> heap p = None"
  then show "methods_open (HAL_MODULE_INFO_SYM tag ident LIGHT_ID p) name dev heap = Some (- EINVAL, dev, heap)"
    using open_lights_known [of p name LIGHT_ID heap]
    by (auto simp: HAL_MODULE_INFO_SYM_def lights_module_methods_def)
qed

text \<open>Through the module's table, with distinct identifiers and memory available, a light opened by its
  identifier is a new device with its own handler, closing it gives the heap back; both NFC functions,
  handed the lights module, are refused with \<open>-EINVAL\<close> and leave the device pointer and the heap alone.\<close>

theorem light_device_session:
  fixes tag ident LIGHT_ID p
  defines "module \<equiv> HAL_MODULE_INFO_SYM tag ident LIGHT_ID p"
  assumes "inj LIGHT_ID" "p \<noteq> NULL" "heap p = None" "NFC_NCI_CONTROLLER \<notin> range LIGHT_ID" "NFC_PN544_CONTROLLER \<notin> range LIGHT_ID"
  shows "methods_open module (LIGHT_ID l) dev heap = Some (0, p, heap(p \<mapsto> l)) \<and>
    map_option (\<lambda>close. close p (heap(p \<mapsto> l))) (lights_common_close (heap(p \<mapsto> l)) p) = Some (0, heap) \<and>
    nfc_nci_open module dev heap = Some (- EINVAL, dev, heap) \<and>
    nfc_pn544_open module dev heap = Some (- EINVAL, dev, heap)"
proof -
  have "open_lights LIGHT_ID p (LIGHT_ID l) heap = Opened p (heap(p \<mapsto> l))"
    using open_lights_known [OF assms(3), of "LIGHT_ID l" LIGHT_ID heap] injD [OF assms(2)] by auto
  then have "methods_open module (LIGHT_ID l) dev heap = Some (0, p, heap(p \<mapsto> l))"
    by (simp add: module_def HAL_MODULE_INFO_SYM_def lights_module_methods_def)
  moreover have "map_option (\<lambda>close. close p (heap(p \<mapsto> l))) (lights_common_close (heap(p \<mapsto> l)) p) = Some (0, heap)"
    using assms(3,4) by (auto simp: lights_common_close_def close_lights_def)
  ultimately show ?thesis
    using lights_hal.nfc_refused [of p heap LIGHT_ID tag ident dev] assms(3-6) by (simp add: module_def)
qed

lemma light_device_session_witness:
  "methods_open (HAL_MODULE_INFO_SYM 1 ''lights''
       (case_light ''backlight'' ''buttons'' ''attention'' ''notifications'' ''battery'') 4096) ''battery'' 0 Map.empty =
     Some (0, 4096, [4096 \<mapsto> Battery])"
proof -
  let ?ids = "case_light ''backlight'' ''buttons'' ''attention'' ''notifications'' ''battery''"
  have "inj ?ids" by (rule injI) (auto split: light.splits)
  moreover have "NFC_NCI_CONTROLLER \<notin> range ?ids" "NFC_PN544_CONTROLLER \<notin> range ?ids"
    by (auto simp: NFC_NCI_CONTROLLER_def NFC_PN544_CONTROLLER_def split: light.splits)
  ultimately show ?thesis
    using light_device_session [of ?ids 4096 Map.empty 1 "''lights''" Battery 0] by simp
qed

end
