(* ===== verification/Vibrator.thy ===== *)
theory Vibrator
  imports Prelude
begin

text \<open>
  The vibrator, \<^verbatim>\<open>vibrator.c\<close>: a wrapper that loads the vendor library \<^verbatim>\<open>libImmVibeJ.so\<close> on demand and
  keeps its session and device handle. The vendor library and the dynamic linker are parameters that may
  answer every call depending on the calls before; the state is the static variables of the file and the
  trace of the calls made.
\<close>

section \<open>The vendor library\<close>

datatype imm_symbol = Sym_Initialize | Sym_Terminate | Sym_OpenDevice | Sym_CloseDevice
  | Sym_PlayMagSweepEffect | Sym_StopAllPlayingEffects

text \<open>\<open>DoWithImmSymbols\<close>.\<close>

definition imm_symbols :: "imm_symbol list" where
  "imm_symbols = [Sym_Initialize, Sym_Terminate, Sym_OpenDevice, Sym_CloseDevice, Sym_PlayMagSweepEffect,
     Sym_StopAllPlayingEffects]"

definition VIBE_INVALID_DEVICE_HANDLE_VALUE :: cint where "VIBE_INVALID_DEVICE_HANDLE_VALUE = - 1"
definition VIBE_S_SUCCESS :: cint where "VIBE_S_SUCCESS = 0"
definition VIBE_E_NOT_INITIALIZED :: cint where "VIBE_E_NOT_INITIALIZED = - 2"
definition VIBE_STYLE_STRONG :: cint where "VIBE_STYLE_STRONG = 1"
definition VIBE_GALAXYS_VERSION_NUMBER :: cint where "VIBE_GALAXYS_VERSION_NUMBER = 0x0307010A"

definition VIBE_FAILED :: "cint \<Rightarrow> bool" where
  "VIBE_FAILED n \<longleftrightarrow> sint n < 0"

definition VIBE_IS_VALID_DEVICE_HANDLE :: "cint \<Rightarrow> bool" where
  "VIBE_IS_VALID_DEVICE_HANDLE n \<longleftrightarrow> n \<noteq> 0 \<and> n \<noteq> VIBE_INVALID_DEVICE_HANDLE_VALUE"

text \<open>The calls, with the status the library answered.\<close>

datatype vcall =
    ImmVibeInitialize cint cint                     \<comment> \<open>version, status\<close>
  | ImmVibeTerminate
  | ImmVibeOpenDevice cint cint                     \<comment> \<open>index, status\<close>
  | ImmVibeCloseDevice cint                         \<comment> \<open>handle\<close>
  | ImmVibePlayMagSweepEffect cint cint cint cint cint cint cint cint cint
      \<comment> \<open>handle, duration, magnitude, style, attack time and level, fade time and level, status\<close>
  | ImmVibeStopAllPlayingEffects cint cint          \<comment> \<open>handle, status\<close>

text \<open>
  \<open>lib_dlopen\<close>, \<open>lib_dlsym\<close>: whether the library opens and has a symbol; \<open>lib_open\<close>: the status and, when the
  library stores one, the device handle; \<open>prop_intensity\<close>: \<open>persist.vibrator_intensity\<close>, or its default.
\<close>

record imm_lib =
  lib_dlopen :: "vcall list \<Rightarrow> bool"
  lib_dlsym :: "vcall list \<Rightarrow> imm_symbol \<Rightarrow> bool"
  lib_initialize :: "vcall list \<Rightarrow> cint"
  lib_open :: "vcall list \<Rightarrow> cint \<times> cint option"
  lib_play :: "vcall list \<Rightarrow> cint \<Rightarrow> cint \<Rightarrow> cint \<Rightarrow> cint"
  lib_stop :: "vcall list \<Rightarrow> cint \<Rightarrow> cint"
  prop_intensity :: "vcall list \<Rightarrow> cint"

record vibrator =
  symbols :: "imm_symbol set"     \<comment> \<open>the function pointers that are not \<open>NULL\<close>\<close>
  devHandle :: cint
  immVibeInitialized :: bool
  calls :: "vcall list"

definition initial_vibrator :: vibrator where
  "initial_vibrator = \<lparr>symbols = {}, devHandle = VIBE_INVALID_DEVICE_HANDLE_VALUE, immVibeInitialized = False, calls = []\<rparr>"

definition called :: "vcall \<Rightarrow> vibrator \<Rightarrow> vibrator" where
  "called c s = s\<lparr>calls := calls s @ [c]\<rparr>"

section \<open>Operations\<close>

text \<open>The \<open>load_symbol\<close>s in their order; the first that is missing clears all.\<close>

fun load_symbols :: "(imm_symbol \<Rightarrow> bool) \<Rightarrow> imm_symbol list \<Rightarrow> vibrator \<Rightarrow> vibrator" where
  "load_symbols dlsym [] s = s"
| "load_symbols dlsym (x # xs) s =
    (if dlsym x then load_symbols dlsym xs (s\<lparr>symbols := insert x (symbols s)\<rparr>) else s\<lparr>symbols := {}\<rparr>)"

definition libImmVibeJ_init :: "imm_lib \<Rightarrow> vibrator \<Rightarrow> vibrator" where
  "libImmVibeJ_init L s =
    (if \<not> lib_dlopen L (calls s) then s\<lparr>symbols := {}\<rparr>
     else load_symbols (lib_dlsym L (calls s)) imm_symbols s)"

definition vibrate_terminate :: "vibrator \<Rightarrow> vibrator" where
  "vibrate_terminate s =
    (let s = (if VIBE_IS_VALID_DEVICE_HANDLE (devHandle s) then
                (called (ImmVibeCloseDevice (devHandle s)) s)\<lparr>devHandle := VIBE_INVALID_DEVICE_HANDLE_VALUE\<rparr>
              else s) in
     if immVibeInitialized s then (called ImmVibeTerminate s)\<lparr>immVibeInitialized := False\<rparr> else s)"

text \<open>The part of \<open>vibrate_init\<close> that opens the device.\<close>

definition vibrate_open :: "imm_lib \<Rightarrow> cint \<Rightarrow> vibrator \<Rightarrow> cint \<times> vibrator" where
  "vibrate_open L vs s =
    (if \<not> VIBE_IS_VALID_DEVICE_HANDLE (devHandle s) then
       (let (vs, h) = lib_open L (calls s);
            s = called (ImmVibeOpenDevice 0 vs) s;
            s = (case h of Some h \<Rightarrow> s\<lparr>devHandle := h\<rparr> | None \<Rightarrow> s) in
        if VIBE_FAILED vs then (vs, vibrate_terminate s) else (vs, s))
     else (vs, s))"

definition vibrate_init :: "imm_lib \<Rightarrow> vibrator \<Rightarrow> cint \<times> vibrator" where
  "vibrate_init L s =
    (let s = (if Sym_Initialize \<notin> symbols s then libImmVibeJ_init L s else s) in
     if Sym_Initialize \<notin> symbols s then (VIBE_E_NOT_INITIALIZED, s)
     else if \<not> immVibeInitialized s then
       (let vs = lib_initialize L (calls s);
            s = called (ImmVibeInitialize VIBE_GALAXYS_VERSION_NUMBER vs) s in
        if VIBE_FAILED vs then (vs, s)
        else vibrate_open L vs (s\<lparr>immVibeInitialized := True\<rparr>))
     else vibrate_open L VIBE_S_SUCCESS s)"

definition vibrate_on :: "imm_lib \<Rightarrow> cint \<Rightarrow> vibrator \<Rightarrow> cint \<times> vibrator" where
  "vibrate_on L duration s =
    (let intensity = prop_intensity L (calls s);
         vs = lib_play L (calls s) (devHandle s) duration intensity;
         s = called (ImmVibePlayMagSweepEffect (devHandle s) duration intensity VIBE_STYLE_STRONG 0 0 0 0 vs) s in
     if VIBE_FAILED vs then (vs, vibrate_terminate s) else (vs, s))"

definition vibrate_off :: "imm_lib \<Rightarrow> vibrator \<Rightarrow> cint \<times> vibrator" where
  "vibrate_off L s =
    (let vs = lib_stop L (calls s) (devHandle s);
         s = called (ImmVibeStopAllPlayingEffects (devHandle s) vs) s in
     if VIBE_FAILED vs then (vs, vibrate_terminate s) else (vs, s))"

definition vibrator_exists :: cint where
  "vibrator_exists = 1"

definition sendit :: "imm_lib \<Rightarrow> cint \<Rightarrow> vibrator \<Rightarrow> cint \<times> vibrator" where
  "sendit L timeout_ms s =
    (let (vs, s) = vibrate_init L s in
     if VIBE_FAILED vs then (- 1, s)
     else let (vs, s) = (if timeout_ms \<noteq> 0 then vibrate_on L timeout_ms s else vibrate_off L s) in
       (if VIBE_FAILED vs then 0 else - 1, s))"

fun sendits :: "imm_lib \<Rightarrow> cint list \<Rightarrow> vibrator \<Rightarrow> cint list \<times> vibrator" where
  "sendits L [] s = ([], s)"
| "sendits L (t # ts) s = (let (r, s) = sendit L t s; (rs, s) = sendits L ts s in (r # rs, s))"

section \<open>The session with the library\<close>

text \<open>
  The library's side of the contract as an automaton: the session state after a trace, \<open>None\<close> when a call
  came without a session, a session was opened twice, or a handle was closed that is not valid.
\<close>

fun session_step :: "vcall \<Rightarrow> bool option \<Rightarrow> bool option" where
  "session_step (ImmVibeInitialize v vs) (Some False) = Some (\<not> VIBE_FAILED vs)"
| "session_step ImmVibeTerminate (Some True) = Some False"
| "session_step (ImmVibeOpenDevice i vs) (Some True) = Some True"
| "session_step (ImmVibeCloseDevice h) (Some True) = (if VIBE_IS_VALID_DEVICE_HANDLE h then Some True else None)"
| "session_step (ImmVibePlayMagSweepEffect h d m st at al ft fl vs) (Some True) = Some True"
| "session_step (ImmVibeStopAllPlayingEffects h vs) (Some True) = Some True"
| "session_step _ _ = None"

definition session :: "vcall list \<Rightarrow> bool option" where
  "session cs = fold session_step cs (Some False)"

text \<open>
  The state agrees with the automaton, a session is only ever open with all function pointers loaded, and a
  device handle is only kept while a session is open.
\<close>

definition vib_inv :: "vibrator \<Rightarrow> bool" where
  "vib_inv s \<longleftrightarrow> session (calls s) = Some (immVibeInitialized s) \<and>
    (Sym_Initialize \<in> symbols s \<longrightarrow> symbols s = UNIV) \<and> (Sym_Initialize \<notin> symbols s \<longrightarrow> symbols s = {}) \<and>
    (immVibeInitialized s \<longrightarrow> symbols s = UNIV) \<and>
    (VIBE_IS_VALID_DEVICE_HANDLE (devHandle s) \<longrightarrow> immVibeInitialized s)"

lemma session_called [simp]: "session (calls (called c s)) = session_step c (session (calls s))"
  by (simp add: session_def called_def)

lemma called_frame [simp]:
  "symbols (called c s) = symbols s" "devHandle (called c s) = devHandle s"
  "immVibeInitialized (called c s) = immVibeInitialized s"
  by (simp_all add: called_def)

lemma invalid_handle [simp]: "\<not> VIBE_IS_VALID_DEVICE_HANDLE VIBE_INVALID_DEVICE_HANDLE_VALUE"
  by (simp add: VIBE_IS_VALID_DEVICE_HANDLE_def)

lemma imm_symbols_all: "set imm_symbols = UNIV"
  unfolding imm_symbols_def by (auto intro: imm_symbol.exhaust)

lemma load_symbols_all:
  "load_symbols f xs s = s\<lparr>symbols := (if \<forall>x\<in>set xs. f x then symbols s \<union> set xs else {})\<rparr>"
  by (induction xs arbitrary: s) (auto simp: insert_commute)

lemma init_symbols:
  "symbols s = {} \<Longrightarrow> libImmVibeJ_init L s = s\<lparr>symbols := UNIV\<rparr> \<or> libImmVibeJ_init L s = s\<lparr>symbols := {}\<rparr>"
  by (auto simp: libImmVibeJ_init_def load_symbols_all imm_symbols_all)

text \<open>\<open>in_session s\<close>: a session is open and everything a call needs is there.\<close>

definition in_session :: "vibrator \<Rightarrow> bool" where
  "in_session s \<longleftrightarrow> session (calls s) = Some True \<and> immVibeInitialized s \<and> symbols s = UNIV"

lemma in_session_inv: "in_session s \<Longrightarrow> vib_inv s"
  by (auto simp: in_session_def vib_inv_def)

definition reset :: "vibrator \<Rightarrow> bool" where
  "reset s \<longleftrightarrow> vib_inv s \<and> \<not> immVibeInitialized s \<and> \<not> VIBE_IS_VALID_DEVICE_HANDLE (devHandle s)"

lemma terminate_resets: "in_session s \<Longrightarrow> reset (vibrate_terminate s)"
  by (auto simp: vibrate_terminate_def vib_inv_def in_session_def reset_def Let_def)

lemma in_session_called:
  "in_session s \<Longrightarrow> in_session (called (ImmVibeOpenDevice i vs) s)"
  "in_session s \<Longrightarrow> in_session (called (ImmVibePlayMagSweepEffect h d m st at al ft fl vs) s)"
  "in_session s \<Longrightarrow> in_session (called (ImmVibeStopAllPlayingEffects h vs) s)"
  "in_session (s\<lparr>devHandle := h\<rparr>) = in_session s"
  by (simp_all add: in_session_def)

lemma open_result:
  assumes "in_session s" "vibrate_open L vs s = (vs', s')" "\<not> VIBE_FAILED vs"
  shows "if VIBE_FAILED vs' then reset s' else in_session s'"
  using assms
  by (auto simp: vibrate_open_def Let_def in_session_called intro!: terminate_resets split: if_splits prod.splits option.splits)

lemma init_result:
  assumes "vib_inv s" "vibrate_init L s = (vs, s')"
  shows "if VIBE_FAILED vs then reset s' else in_session s'"
proof -
  define s0 where "s0 = (if Sym_Initialize \<notin> symbols s then libImmVibeJ_init L s else s)"
  have s0: "vib_inv s0" "immVibeInitialized s0 = immVibeInitialized s"
    using assms(1) init_symbols [of s L] by (auto simp: s0_def vib_inv_def)
  have run: "vibrate_init L s = (if Sym_Initialize \<notin> symbols s0 then (VIBE_E_NOT_INITIALIZED, s0)
     else if \<not> immVibeInitialized s0 then
       (let vs = lib_initialize L (calls s0);
            s1 = called (ImmVibeInitialize VIBE_GALAXYS_VERSION_NUMBER vs) s0 in
        if VIBE_FAILED vs then (vs, s1) else vibrate_open L vs (s1\<lparr>immVibeInitialized := True\<rparr>))
     else vibrate_open L VIBE_S_SUCCESS s0)"
    by (simp add: vibrate_init_def s0_def Let_def)
  consider "Sym_Initialize \<notin> symbols s0" | "Sym_Initialize \<in> symbols s0" "\<not> immVibeInitialized s0"
    | "Sym_Initialize \<in> symbols s0" "immVibeInitialized s0" by blast
  then show ?thesis
  proof cases
    case 1
    with s0 have "reset s0" by (auto simp: reset_def vib_inv_def)
    with 1 assms(2) show ?thesis unfolding run by (auto simp: VIBE_FAILED_def VIBE_E_NOT_INITIALIZED_def)
  next
    case 2
    let ?vs = "lib_initialize L (calls s0)"
    let ?s1 = "called (ImmVibeInitialize VIBE_GALAXYS_VERSION_NUMBER ?vs) s0"
    have "VIBE_FAILED ?vs \<Longrightarrow> reset ?s1" "\<not> VIBE_FAILED ?vs \<Longrightarrow> in_session (?s1\<lparr>immVibeInitialized := True\<rparr>)"
      using 2 s0 by (auto simp: reset_def vib_inv_def in_session_def)
    with 2 assms(2) open_result [of "?s1\<lparr>immVibeInitialized := True\<rparr>" L ?vs] show ?thesis
      unfolding run by (auto simp: Let_def split: if_splits)
  next
    case 3
    with s0 have "in_session s0" by (auto simp: in_session_def vib_inv_def)
    with 3 assms(2) open_result [of s0 L VIBE_S_SUCCESS] show ?thesis
      unfolding run by (auto simp: VIBE_FAILED_def VIBE_S_SUCCESS_def)
  qed
qed

lemma effect_result:
  assumes "in_session s" "(if t \<noteq> 0 then vibrate_on L t s else vibrate_off L s) = (vs, s')"
  shows "if VIBE_FAILED vs then reset s' else in_session s'"
  using assms
  by (auto simp: vibrate_on_def vibrate_off_def Let_def in_session_called intro!: terminate_resets split: if_splits)

lemma sendit_inv: "vib_inv s \<Longrightarrow> vib_inv (snd (sendit L t s))"
proof -
  assume s: "vib_inv s"
  obtain vs s1 where 1: "vibrate_init L s = (vs, s1)" by fastforce
  obtain vs2 s2 where 2: "(if t \<noteq> 0 then vibrate_on L t s1 else vibrate_off L s1) = (vs2, s2)" by fastforce
  from init_result [OF s 1] show ?thesis
  proof (cases "VIBE_FAILED vs")
    case True
    with init_result [OF s 1] 1 show ?thesis by (simp add: sendit_def reset_def)
  next
    case False
    with init_result [OF s 1] have "in_session s1" by simp
    from effect_result [OF this 2] False 1 2 show ?thesis
      by (auto simp: sendit_def Let_def reset_def in_session_inv split: if_splits)
  qed
qed

section \<open>Results\<close>

text \<open>C27: whatever the vendor library answers, after any sequence of requests the calls made to it form
  correct sessions (initialise once, use and close valid handles only inside, terminate once), the code's
  own flag agrees with the session, and all function pointers are loaded while a session is open.\<close>

theorem vibrator_session_discipline:
  "vib_inv (snd (sendits L ts initial_vibrator))"
proof -
  have "vib_inv s \<Longrightarrow> vib_inv (snd (sendits L ts s))" for s
    by (induction ts arbitrary: s) (auto simp: Let_def case_prod_beta sendit_inv)
  moreover have "vib_inv initial_vibrator" by (simp add: vib_inv_def initial_vibrator_def session_def)
  ultimately show ?thesis .
qed

text \<open>C39: what \<open>sendit\<close> returns: 0 exactly when the session was there and the effect itself failed (the state
  is then reset, so that the next request starts a new session), and -1 in every other case, success
  included.\<close>

theorem sendit_result:
  assumes "vib_inv s" "vibrate_init L s = (vs, s1)"
    and "(if t \<noteq> 0 then vibrate_on L t s1 else vibrate_off L s1) = (vs2, s2)"
  shows "sendit L t s = (if VIBE_FAILED vs then (- 1, s1) else if VIBE_FAILED vs2 then (0, s2) else (- 1, s2)) \<and>
    (VIBE_FAILED vs \<longrightarrow> reset s1) \<and> (\<not> VIBE_FAILED vs \<longrightarrow> VIBE_FAILED vs2 \<longrightarrow> reset s2)"
proof -
  note i = init_result [OF assms(1,2)]
  have "\<not> VIBE_FAILED vs \<Longrightarrow> VIBE_FAILED vs2 \<Longrightarrow> reset s2"
    using i effect_result [OF _ assms(3)] by simp
  with i assms(2,3) show ?thesis by (auto simp: sendit_def Let_def split: if_splits)
qed

text \<open>A library in which everything works, with device handle 3.\<close>

definition good_lib :: imm_lib where
  "good_lib = \<lparr>lib_dlopen = (\<lambda>_. True), lib_dlsym = (\<lambda>_ _. True), lib_initialize = (\<lambda>_. 0),
     lib_open = (\<lambda>_. (0, Some 3)), lib_play = (\<lambda>_ _ _ _. 0), lib_stop = (\<lambda>_ _. 0), prop_intensity = (\<lambda>_. 5000)\<rparr>"

lemmas vib_eval = vibrate_init_def libImmVibeJ_init_def load_symbols_all imm_symbols_all vibrate_open_def
  vibrate_on_def vibrate_off_def called_def VIBE_FAILED_def VIBE_IS_VALID_DEVICE_HANDLE_def
  VIBE_INVALID_DEVICE_HANDLE_VALUE_def VIBE_S_SUCCESS_def Let_def

lemma sendit_result_witness:
  "fst (sendit (good_lib\<lparr>lib_play := (\<lambda>_ _ _ _. - 4)\<rparr>) 100 initial_vibrator) = 0"
proof -
  let ?L = "good_lib\<lparr>lib_play := (\<lambda>_ _ _ _. - 4)\<rparr>"
  obtain vs s1 where i: "vibrate_init ?L initial_vibrator = (vs, s1)" by fastforce
  obtain vs2 s2 where e: "(if (100 :: cint) \<noteq> 0 then vibrate_on ?L 100 s1 else vibrate_off ?L s1) = (vs2, s2)"
    by fastforce
  have "vib_inv initial_vibrator" by (simp add: vib_inv_def initial_vibrator_def session_def)
  from sendit_result [OF this i e] i e show ?thesis
    by (auto simp: good_lib_def initial_vibrator_def vib_eval)
qed

text \<open>With a library that works, the first request for a non-zero time starts a session, opens device 0
  and plays a strong effect of that duration with the configured intensity on the handle it got, a further
  one reuses the session, and a request for 0 stops all effects; all of them return -1.\<close>

theorem sendit_drives_library:
  assumes "t \<noteq> 0" "t' \<noteq> 0"
  shows "sendits good_lib [t, t', 0] initial_vibrator =
    ([- 1, - 1, - 1], \<lparr>symbols = UNIV, devHandle = 3, immVibeInitialized = True,
       calls = [ImmVibeInitialize VIBE_GALAXYS_VERSION_NUMBER 0, ImmVibeOpenDevice 0 0,
         ImmVibePlayMagSweepEffect 3 t 5000 VIBE_STYLE_STRONG 0 0 0 0 0,
         ImmVibePlayMagSweepEffect 3 t' 5000 VIBE_STYLE_STRONG 0 0 0 0 0, ImmVibeStopAllPlayingEffects 3 0]\<rparr>)"
  using assms by (simp add: sendit_def good_lib_def initial_vibrator_def vib_eval)

lemma sendit_drives_library_witness:
  "fst (sendits good_lib [100, 250, 0] initial_vibrator) = [- 1, - 1, - 1]"
  using sendit_drives_library [of 100 250] by simp

end
