(* ===== verification/Hw_Control.thy ===== *)
theory Hw_Control
  imports Vibrator CLib
begin

text \<open>
  The two hardware control classes of \<^verbatim>\<open>mkhw/org/mokee/hardware\<close>: \<^verbatim>\<open>VibratorHW.java\<close>, through which Settings
  chooses the intensity that \<^verbatim>\<open>vibrator.c\<close> plays with, and \<^verbatim>\<open>HighTouchSensitivity.java\<close>, which reads and writes
  a file of the touch-screen driver. The property service and the class \<open>FileUtils\<close> are not part of the tree and are
  parameters; \<open>Integer.parseInt\<close> and \<open>Long.toString\<close> are Java's.
\<close>

section \<open>Decimal numbers in Java\<close>

datatype java_error = NumberFormatException

fun dec_value :: "nat \<Rightarrow> string \<Rightarrow> nat option" where
  "dec_value acc [] = Some acc"
| "dec_value acc (c # cs) = (if is_digit c then dec_value (10 * acc + digit_val c) cs else None)"

text \<open>\<open>Integer.parseInt\<close>: an optional sign, at least one digit, nothing else, and a value that fits; \<open>None\<close> is \<open>null\<close>.\<close>

definition int_range :: "int \<Rightarrow> java_error + cint" where
  "int_range v = (if - 2147483648 \<le> v \<and> v \<le> 2147483647 then Inr (of_int v) else Inl NumberFormatException)"

definition parseInt :: "string option \<Rightarrow> java_error + cint" where
  "parseInt s =
    (case s of
       None \<Rightarrow> Inl NumberFormatException
     | Some [] \<Rightarrow> Inl NumberFormatException
     | Some (c # cs) \<Rightarrow>
         let (neg, ds) = (if c = CHR ''-'' then (True, cs) else if c = CHR ''+'' then (False, cs) else (False, c # cs)) in
         if ds = [] then Inl NumberFormatException
         else case dec_value 0 ds of
             None \<Rightarrow> Inl NumberFormatException
           | Some n \<Rightarrow> int_range (if neg then - int n else int n))"

text \<open>\<open>Long.toString\<close> of an \<open>int\<close>.\<close>

definition toString :: "cint \<Rightarrow> string" where
  "toString i = int_dec (sint i)"

lemma dec_value_app: "dec_value acc (xs @ ys) = (case dec_value acc xs of None \<Rightarrow> None | Some n \<Rightarrow> dec_value n ys)"
  by (induction xs arbitrary: acc) auto

lemma dec_value_nat_dec: "dec_value 0 (nat_dec n) = Some n"
proof (induction n rule: nat_dec.induct)
  case (1 n)
  then show ?case by (cases "n < 10") (subst nat_dec.simps, simp add: dec_value_app)+
qed

lemma int_range_sint: "int_range (sint v) = Inr v"
  using sint_ge [of v] sint_lt [of v] by (simp add: int_range_def)

lemma parseInt_toString: "parseInt (Some (toString v)) = Inr v"
proof (cases "sint v < 0")
  case True
  obtain d cs where "nat_dec (nat (- sint v)) = digit d # cs" using nat_dec_head by blast
  with True dec_value_nat_dec [of "nat (- sint v)"] show ?thesis
    by (simp add: toString_def int_dec_def parseInt_def int_range_sint split del: if_split)
next
  case False
  obtain d cs where "nat_dec (nat (sint v)) = digit d # cs" "d < 10" using nat_dec_head by blast
  with False dec_value_nat_dec [of "nat (sint v)"] show ?thesis
    by (simp add: toString_def int_dec_def parseInt_def int_range_sint)
qed

section \<open>The intensity of the vibrator\<close>

text \<open>\<open>SystemProperties.set\<close>, \<open>SystemProperties.getInt\<close> and, for C, \<open>property_get_int32\<close> on one store of properties.\<close>

record 'p property_service =
  sp_set :: "string \<Rightarrow> string \<Rightarrow> 'p \<Rightarrow> 'p"
  sp_getInt :: "string \<Rightarrow> cint \<Rightarrow> 'p \<Rightarrow> cint"
  pg_int32 :: "string \<Rightarrow> cint \<Rightarrow> 'p \<Rightarrow> cint"

definition intensity_property :: string where
  "intensity_property = ''persist.vibrator_intensity''"

definition isSupported :: bool where "isSupported = True"
definition getMaxIntensity :: cint where "getMaxIntensity = 10000"
definition getMinIntensity :: cint where "getMinIntensity = 0"
definition getWarningThreshold :: cint where "getWarningThreshold = - 1"
definition getDefaultIntensity :: cint where "getDefaultIntensity = 5000"

definition setIntensity :: "'p property_service \<Rightarrow> cint \<Rightarrow> 'p \<Rightarrow> bool \<times> 'p" where
  "setIntensity S intensity p = (True, sp_set S intensity_property (toString intensity) p)"

definition getCurIntensity :: "'p property_service \<Rightarrow> 'p \<Rightarrow> cint" where
  "getCurIntensity S p = sp_getInt S intensity_property getDefaultIntensity p"

text \<open>The other side, in \<open>vibrate_on\<close>: where the intensity of the vibrator comes from.\<close>

definition VIBE_MAX_MAGNITUDE :: cint where "VIBE_MAX_MAGNITUDE = 10000"
definition VIBE_MIN_MAGNITUDE :: cint where "VIBE_MIN_MAGNITUDE = 0"

definition with_properties :: "'p property_service \<Rightarrow> 'p \<Rightarrow> imm_lib \<Rightarrow> imm_lib" where
  "with_properties S p L = L\<lparr>prop_intensity := (\<lambda>_. pg_int32 S intensity_property 5000 p)\<rparr>"

text \<open>What the two readers of the property service are documented to do: a property set to the decimal notation of a
  number reads as that number, a property that is not set reads as the default given.\<close>

locale properties =
  fixes S :: "'p property_service" and unset :: "string \<Rightarrow> 'p \<Rightarrow> bool"
  assumes getInt_set: "sp_getInt S name d (sp_set S name (toString i) p) = i"
    and int32_set: "pg_int32 S name d (sp_set S name (toString i) p) = i"
    and getInt_unset: "unset name p \<Longrightarrow> sp_getInt S name d p = d"
    and int32_unset: "unset name p \<Longrightarrow> pg_int32 S name d p = d"
begin

text \<open>Settings and the vibrator agree on the intensity.\<close>

lemma same_intensity:
  assumes "unset intensity_property p \<or> p = snd (setIntensity S i p0)"
  shows "prop_intensity (with_properties S p L) cs = getCurIntensity S p"
  using assms getInt_set int32_set getInt_unset int32_unset
  by (auto simp: with_properties_def getCurIntensity_def setIntensity_def getDefaultIntensity_def)

lemma set_intensity: "getCurIntensity S (snd (setIntensity S i p)) = i"
  by (simp add: getCurIntensity_def setIntensity_def getInt_set)

lemma unset_intensity: "unset intensity_property p \<Longrightarrow> getCurIntensity S p = getDefaultIntensity"
  by (simp add: getCurIntensity_def getInt_unset)

end

text \<open>A property service as a map of strings, both readers by \<open>parseInt\<close>.\<close>

definition map_getInt :: "string \<Rightarrow> cint \<Rightarrow> (string \<rightharpoonup> string) \<Rightarrow> cint" where
  "map_getInt name d p = (case parseInt (p name) of Inl e \<Rightarrow> d | Inr i \<Rightarrow> i)"

definition map_properties :: "(string \<rightharpoonup> string) property_service" where
  "map_properties = \<lparr>sp_set = (\<lambda>name v p. p(name \<mapsto> v)), sp_getInt = map_getInt, pg_int32 = map_getInt\<rparr>"

interpretation mapped: properties map_properties "\<lambda>name p. p name = None"
  by unfold_locales
     (simp_all add: map_properties_def map_getInt_def parseInt_toString, simp_all add: parseInt_def)

lemma init_with_properties: "vibrate_init (with_properties S p L) s = vibrate_init L s"
proof -
  have "libImmVibeJ_init (with_properties S p L) = libImmVibeJ_init L"
    "vibrate_open (with_properties S p L) = vibrate_open L"
    "lib_initialize (with_properties S p L) = lib_initialize L"
    by (simp_all add: fun_eq_iff libImmVibeJ_init_def vibrate_open_def with_properties_def)
  then show ?thesis by (simp only: vibrate_init_def)
qed

lemma sendit_plays:
  assumes "vibrate_init L s = (vs, s1)" "\<not> VIBE_FAILED vs" "t \<noteq> 0" "prop_intensity (with_properties S p L) (calls s1) = i"
  shows "\<exists>vs2. calls (snd (sendit (with_properties S p L) t s)) ! length (calls s1) =
      ImmVibePlayMagSweepEffect (devHandle s1) t i VIBE_STYLE_STRONG 0 0 0 0 vs2"
    "take (length (calls s1)) (calls (snd (sendit (with_properties S p L) t s))) = calls s1"
  using assms
  by (auto simp: sendit_def init_with_properties vibrate_on_def vibrate_terminate_def called_def Let_def nth_append)

text \<open>C28: the intensity chosen in Settings is the one the motor gets. After \<open>setIntensity\<close> with any value, and as long
  as nothing was set with the default, \<open>getCurIntensity\<close> and the next effect agree: the first call \<open>sendit\<close> makes to the
  vendor library once a session is there plays with that magnitude, and the range Settings offers is the range of
  magnitudes of the library.\<close>

theorem intensity_reaches_motor:
  assumes "properties S unset" "vibrate_init L s = (vs, s1)" "\<not> VIBE_FAILED vs" "t \<noteq> 0"
    and "p = snd (setIntensity S i p0) \<or> unset intensity_property p \<and> i = getDefaultIntensity"
  shows "getCurIntensity S p = i \<and>
    take (length (calls s1)) (calls (snd (sendit (with_properties S p L) t s))) = calls s1 \<and>
    (\<exists>vs2. calls (snd (sendit (with_properties S p L) t s)) ! length (calls s1) =
      ImmVibePlayMagSweepEffect (devHandle s1) t i VIBE_STYLE_STRONG 0 0 0 0 vs2) \<and>
    getMinIntensity = VIBE_MIN_MAGNITUDE \<and> getMaxIntensity = VIBE_MAX_MAGNITUDE"
proof -
  have cur: "getCurIntensity S p = i"
    using assms(5) properties.set_intensity [OF assms(1)] properties.unset_intensity [OF assms(1)] by blast
  then have "prop_intensity (with_properties S p L) (calls s1) = i"
    using assms(5) properties.same_intensity [OF assms(1)] by metis
  from cur sendit_plays [OF assms(2-4) this] show ?thesis
    by (simp add: getMinIntensity_def getMaxIntensity_def VIBE_MIN_MAGNITUDE_def VIBE_MAX_MAGNITUDE_def)
qed

lemma intensity_reaches_motor_witness:
  "\<exists>s vs2. sendit (with_properties map_properties (snd (setIntensity map_properties 7000 Map.empty)) good_lib) 100
      initial_vibrator = (- 1, s) \<and>
    calls s ! 2 = ImmVibePlayMagSweepEffect 3 100 7000 VIBE_STYLE_STRONG 0 0 0 0 vs2"
proof -
  obtain vs s1 where i: "vibrate_init good_lib initial_vibrator = (vs, s1)" by fastforce
  then have s1: "\<not> VIBE_FAILED vs" "length (calls s1) = 2" "devHandle s1 = 3"
    by (auto simp: good_lib_def initial_vibrator_def vib_eval)
  let ?p = "snd (setIntensity map_properties 7000 Map.empty)"
  obtain r s where s: "sendit (with_properties map_properties ?p good_lib) 100 initial_vibrator = (r, s)" by fastforce
  have "r = - 1" using s s1(1)
    by (auto simp: sendit_def init_with_properties i vibrate_on_def Let_def)
       (simp_all add: with_properties_def good_lib_def VIBE_FAILED_def)
  with intensity_reaches_motor [OF mapped.properties_axioms i s1(1), of 100 ?p 7000 Map.empty] s s1
  show ?thesis by auto
qed

section \<open>The sensitivity of the touch screen\<close>

text \<open>\<open>File.exists\<close>, and \<open>FileUtils.readOneLine\<close> (\<open>None\<close> is \<open>null\<close>) and \<open>FileUtils.writeLine\<close> on the files \<open>'f\<close>.\<close>

record 'f file_utils =
  fu_exists :: "string \<Rightarrow> 'f \<Rightarrow> bool"
  fu_readOneLine :: "string \<Rightarrow> 'f \<Rightarrow> string option"
  fu_writeLine :: "string \<Rightarrow> string \<Rightarrow> 'f \<Rightarrow> bool \<times> 'f"

definition ENABLE_PATH :: string where
  "ENABLE_PATH = ''/sys/bus/i2c/devices/1-004a/sensitive_mode''"

definition touch_isSupported :: "'f file_utils \<Rightarrow> 'f \<Rightarrow> bool" where
  "touch_isSupported U f = fu_exists U ENABLE_PATH f"

definition isEnabled :: "'f file_utils \<Rightarrow> 'f \<Rightarrow> java_error + bool" where
  "isEnabled U f = (case parseInt (fu_readOneLine U ENABLE_PATH f) of Inl e \<Rightarrow> Inl e | Inr n \<Rightarrow> Inr (n \<noteq> 0))"

definition setEnabled :: "'f file_utils \<Rightarrow> bool \<Rightarrow> 'f \<Rightarrow> bool \<times> 'f" where
  "setEnabled U status f = fu_writeLine U ENABLE_PATH (if status then ''1'' else ''0'') f"

text \<open>A line written successfully is read back.\<close>

definition reads_back :: "'f file_utils \<Rightarrow> bool" where
  "reads_back U \<longleftrightarrow> (\<forall>path line f f'. fu_writeLine U path line f = (True, f') \<longrightarrow> fu_readOneLine U path f' = Some line)"

lemma parse_status: "parseInt (Some (if b then ''1'' else ''0'')) = Inr (if b then 1 else 0)"
  by (simp add: parseInt_def is_digit_def digit_val_def int_range_def)

text \<open>After a successful \<open>setEnabled\<close>, \<open>isEnabled\<close> returns the status that was set; but when the file cannot be read
  it throws a \<open>NumberFormatException\<close> instead of returning false.\<close>

theorem touch_status:
  assumes "reads_back U"
  shows "(setEnabled U b f = (True, f') \<longrightarrow> isEnabled U f' = Inr b) \<and>
    (fu_readOneLine U ENABLE_PATH f = None \<longrightarrow> isEnabled U f = Inl NumberFormatException)"
proof -
  have "isEnabled U f' = Inr b" if "setEnabled U b f = (True, f')"
  proof -
    have "fu_readOneLine U ENABLE_PATH f' = Some (if b then ''1'' else ''0'')"
      using assms that unfolding reads_back_def setEnabled_def by blast
    with parse_status [of b] show ?thesis by (simp add: isEnabled_def)
  qed
  then show ?thesis by (simp add: isEnabled_def parseInt_def)
qed

text \<open>Files as a map of lines; writing needs the file to be there.\<close>

definition line_files :: "(string \<rightharpoonup> string) file_utils" where
  "line_files = \<lparr>fu_exists = (\<lambda>path f. path \<in> dom f), fu_readOneLine = (\<lambda>path f. f path),
     fu_writeLine = (\<lambda>path line f. if f path = None then (False, f) else (True, f(path \<mapsto> line)))\<rparr>"

lemma touch_status_witness:
  "isEnabled line_files (snd (setEnabled line_files True [ENABLE_PATH \<mapsto> ''0''])) = Inr True \<and>
   isEnabled line_files Map.empty = Inl NumberFormatException"
proof -
  have "reads_back line_files" by (simp add: reads_back_def line_files_def)
  note t = touch_status [OF this]
  from t [of True "[ENABLE_PATH \<mapsto> ''0'']" "[ENABLE_PATH \<mapsto> ''1'']"] t [of True Map.empty Map.empty]
  show ?thesis by (simp add: setEnabled_def line_files_def)
qed

end
