(* ===== verification/Init.thy ===== *)
theory Init
  imports CLib
begin

text \<open>
  The boot hook, \<^verbatim>\<open>init/init_pisces.c\<close>: it looks at two sysfs files and sets \<^verbatim>\<open>ro.alarm_boot\<close> when the
  device was powered up by its alarm. The files are a parameter. Local arrays are uninitialised: what they
  contain before a read is a parameter too (\<open>junk\<close>), and a result that would need bytes beyond an array is
  undefined (\<open>None\<close>).
\<close>

section \<open>Files\<close>

datatype write_result = Write_open_error cint | Short_write cint | All_written

record files =
  reads :: "string \<Rightarrow> read_result"
  writes :: "string \<Rightarrow> write_result"

text \<open>What the hook does: properties set and texts written.\<close>

datatype effect = Property_set string string | File_written string string

definition POWERUP_REASON_PATH :: string where "POWERUP_REASON_PATH = ''/sys/bootinfo/powerup_reason''"
definition RTC_WAKEALARM_PATH :: string where "RTC_WAKEALARM_PATH = ''/sys/class/rtc/rtc0/wakealarm''"

lemma paths_distinct [simp]: "POWERUP_REASON_PATH \<noteq> RTC_WAKEALARM_PATH"
  by (simp add: POWERUP_REASON_PATH_def RTC_WAKEALARM_PATH_def)

section \<open>Operations\<close>

text \<open>The length or the negated \<open>errno\<close>, and the array afterwards; \<open>read\<close> stores at most \<open>n\<close> bytes.\<close>

definition read_string :: "files \<Rightarrow> string \<Rightarrow> string \<Rightarrow> nat \<Rightarrow> cint \<times> string" where
  "read_string fs path string n =
    (case reads fs path of
       Open_error errno \<Rightarrow> (- errno, string)
     | Read_error errno \<Rightarrow> (- errno, string)
     | Bytes bs \<Rightarrow> let got = take n bs in (of_nat (length got), got @ drop (length got) string))"

text \<open>
  The \<open>end\<close> pointer the code prepares is only an output of \<open>strtol\<close> and does not bound it: \<open>strtol\<close> reads
  the array as it is.
\<close>

definition read_int :: "files \<Rightarrow> string \<Rightarrow> string \<Rightarrow> cint \<Rightarrow> cint option" where
  "read_int fs junk path default_value =
    (let (length, buffer) = read_string fs path junk 80 in
     if sint length \<le> 0 then Some default_value
     else map_option fst (strtol buffer))"

definition write_int :: "files \<Rightarrow> string \<Rightarrow> cint \<Rightarrow> cint \<times> effect list" where
  "write_int fs path value =
    (case writes fs path of
       Write_open_error errno \<Rightarrow> (- errno, [])
     | Short_write errno \<Rightarrow> (- errno, [])
     | All_written \<Rightarrow> (0, [File_written path (sprintf_d value)]))"

definition load_bootinfo :: "files \<Rightarrow> string \<Rightarrow> string \<Rightarrow> effect list option" where
  "load_bootinfo fs junk1 junk2 =
    (let (length, powerup_reason) = read_string fs POWERUP_REASON_PATH junk1 80 in
     if length = 3 \<and> take 3 powerup_reason = ''rtc'' then Some [Property_set ''ro.alarm_boot'' ''true'']
     else
       (case read_int fs junk2 RTC_WAKEALARM_PATH 0 of
          None \<Rightarrow> None
        | Some alarm \<Rightarrow>
            if alarm \<noteq> 0
            then Some (Property_set ''ro.alarm_boot'' ''true'' # snd (write_int fs RTC_WAKEALARM_PATH 0))
            else Some []))"

definition vendor_load_properties :: "files \<Rightarrow> string \<Rightarrow> string \<Rightarrow> effect list option" where
  "vendor_load_properties fs junk1 junk2 = load_bootinfo fs junk1 junk2"

section \<open>Reading numbers\<close>

lemma sprintf_short: "length (sprintf_d v) \<le> 80" "sprintf_d v \<noteq> []"
  using sprintf_fits [of v] by (simp_all add: sprintf_d_def)

lemma small_length: "n \<le> 80 \<Longrightarrow> sint (of_nat n :: cint) = int n"
  using sint_of_unat [of "of_nat n"] by (simp add: unat_of_nat32)

lemma read_int_number:
  assumes "reads fs path = Bytes (sprintf_d v)"
  shows "read_int fs junk path d = Some v"
proof -
  let ?b = "sprintf_d v"
  have "read_string fs path junk 80 = (of_nat (length ?b), ?b @ drop (length ?b) junk)"
    using assms sprintf_short(1) [of v] by (simp add: read_string_def Let_def)
  moreover have "\<not> sint (of_nat (length ?b) :: cint) \<le> 0"
    using sprintf_short [of v] small_length by simp
  ultimately show ?thesis by (simp add: read_int_def strtol_sprintf)
qed

lemma read_int_empty: "reads fs path = Bytes [] \<Longrightarrow> read_int fs junk path d = Some d"
  by (simp add: read_int_def read_string_def)

lemma read_int_error:
  assumes "reads fs path = Open_error e \<or> reads fs path = Read_error e" "0 \<le> sint e"
  shows "read_int fs junk path d = Some d"
proof -
  have "sint (- e) \<le> 0"
    using assms(2) sint_range [of e] by (simp add: sint_word_ariths signed_take_bit_int_eq_self)
  with assms(1) show ?thesis by (auto simp: read_int_def read_string_def)
qed

text \<open>What the hook does with files that can be read and written.\<close>

lemma bootinfo_effects:
  assumes "reads fs POWERUP_REASON_PATH = Bytes reason" "length reason \<le> 80"
    and "read_int fs junk2 RTC_WAKEALARM_PATH 0 = Some alarm" "writes fs RTC_WAKEALARM_PATH = All_written"
  shows "vendor_load_properties fs junk1 junk2 =
    Some (if reason = ''rtc'' then [Property_set ''ro.alarm_boot'' ''true'']
          else if alarm \<noteq> 0
          then [Property_set ''ro.alarm_boot'' ''true'', File_written RTC_WAKEALARM_PATH (sprintf_d 0)]
          else [])"
proof -
  have "read_string fs POWERUP_REASON_PATH junk1 80 = (of_nat (length reason), reason @ drop (length reason) junk1)"
    using assms(1,2) by (simp add: read_string_def)
  moreover have "of_nat (length reason) = (3 :: cint) \<longleftrightarrow> length reason = 3"
    using assms(2) unat_of_nat32 [of "length reason"] by (auto simp: word_unat_eq_iff)
  moreover have "length reason = 3 \<Longrightarrow> take 3 (reason @ r) = reason" for r by simp
  ultimately show ?thesis
    using assms(3,4) by (auto simp: vendor_load_properties_def load_bootinfo_def write_int_def)
qed

section \<open>Results\<close>

text \<open>C31: the boot hook sets \<open>ro.alarm_boot\<close> exactly when the power-up reason reads \<open>rtc\<close> or the wake alarm is
  not 0, and clears the alarm exactly in the second case; with a readable alarm file the stack plays no
  part.\<close>

theorem load_bootinfo_decides:
  assumes "reads fs POWERUP_REASON_PATH = Bytes reason" "length reason \<le> 80"
    and "reads fs RTC_WAKEALARM_PATH = Bytes (sprintf_d alarm)" "writes fs RTC_WAKEALARM_PATH = All_written"
  shows "vendor_load_properties fs junk1 junk2 =
    Some (if reason = ''rtc'' then [Property_set ''ro.alarm_boot'' ''true'']
          else if alarm \<noteq> 0
          then [Property_set ''ro.alarm_boot'' ''true'', File_written RTC_WAKEALARM_PATH (sprintf_d 0)]
          else [])"
  by (rule bootinfo_effects [OF assms(1,2) read_int_number [OF assms(3)] assms(4)])

lemma load_bootinfo_decides_witness:
  "vendor_load_properties \<lparr>reads = (\<lambda>p. if p = RTC_WAKEALARM_PATH then Bytes (sprintf_d 1400000000) else Bytes ''usb''),
      writes = (\<lambda>_. All_written)\<rparr> [] [] =
    Some [Property_set ''ro.alarm_boot'' ''true'', File_written RTC_WAKEALARM_PATH (sprintf_d 0)]"
  using load_bootinfo_decides [of "\<lparr>reads = (\<lambda>p. if p = RTC_WAKEALARM_PATH then Bytes (sprintf_d 1400000000)
      else Bytes ''usb''), writes = (\<lambda>_. All_written)\<rparr>" "''usb''" 1400000000 "[]" "[]"] by simp

text \<open>Without a terminating newline the number that is read depends on what the stack held before: the
  same file reads as 5 or as 57.\<close>

theorem read_int_depends_on_stack:
  fixes fs defines "fs \<equiv> \<lparr>reads = (\<lambda>_. Bytes ''5''), writes = (\<lambda>_. All_written)\<rparr>"
  shows "read_int fs (CHR ''x'' # CHR 0x00 # stack) RTC_WAKEALARM_PATH 0 = Some 5 \<and>
    read_int fs (CHR ''x'' # CHR ''7'' # CHR 0x00 # stack) RTC_WAKEALARM_PATH 0 = Some 57"
  by (simp add: fs_def read_int_def read_string_def strtol_def is_digit_def is_space_def digit_val_def
      long_range_def LONG_MAX_def LONG_MIN_def)

end
