(* ===== verification/Healthd.thy ===== *)
theory Healthd
  imports Prog CLib
begin

text \<open>
  The power-off alarm of the charger, \<^verbatim>\<open>libhealthd/healthd-pisces.cpp\<close>: a thread that waits, while the phone
  charges switched off, until the alarm register's time has come and then reboots. The clock files, the
  alarm device and the stack contents are parameters; a run of the waiting loop is driven by the list of
  what every round meets.
\<close>

section \<open>Reading the clocks\<close>

datatype alarm_time_type = ALARM_TIME | RTC_TIME

definition RTC_WAKEALARM_PATH :: string where "RTC_WAKEALARM_PATH = ''/sys/class/rtc/rtc0/wakealarm''"
definition RTC_EPOCH_PATH :: string where "RTC_EPOCH_PATH = ''/sys/class/rtc/rtc0/since_epoch''"

fun alarm_path :: "alarm_time_type \<Rightarrow> string" where
  "alarm_path ALARM_TIME = RTC_WAKEALARM_PATH"
| "alarm_path RTC_TIME = RTC_EPOCH_PATH"

type_synonym clock_files = "string \<Rightarrow> read_result"

text \<open>The return value and what was stored in \<open>*secs\<close>; \<open>None\<close> when \<open>strtol\<close> leaves the array.\<close>

definition alarm_get_time :: "clock_files \<Rightarrow> string \<Rightarrow> alarm_time_type \<Rightarrow> (cint \<times> cint option) option" where
  "alarm_get_time fs junk time_type =
    (case fs (alarm_path time_type) of
       Open_error errno \<Rightarrow> Some (- 1, None)
     | Read_error errno \<Rightarrow> Some (- 1, None)
     | Bytes bs \<Rightarrow>
         let got = take 80 bs; buf = got @ drop (length got) junk in
         case strtol buf of
           None \<Rightarrow> None
         | Some (secs, range_error) \<Rightarrow> Some (if range_error then - 1 else 0, Some secs))"

section \<open>Waiting\<close>

definition ERR_SECS :: cint where "ERR_SECS = 2"

definition alarm_is_alm_expired :: "cint \<Rightarrow> clock_files \<Rightarrow> string \<Rightarrow> cint option" where
  "alarm_is_alm_expired alm_secs fs junk =
    (case alarm_get_time fs junk RTC_TIME of
       None \<Rightarrow> None
     | Some (rc, secs) \<Rightarrow>
         if sint rc < 0 then Some 0
         else (case secs of
             None \<Rightarrow> None
           | Some rtc_secs \<Rightarrow>
               Some (if sint (rtc_secs - ERR_SECS) \<le> sint alm_secs \<and> sint alm_secs \<le> sint (rtc_secs + ERR_SECS)
                     then 1 else 0)))"

definition EINTR :: cint where "EINTR = 4"

text \<open>One round of the loop: what \<open>ioctl(ANDROID_ALARM_WAIT)\<close> returns, \<open>errno\<close>, and the clock files and stack
  the check that follows finds.\<close>

type_synonym wait_round = "cint \<times> cint \<times> clock_files \<times> string"

datatype 'a run = Done 'a | Undefined | Waiting

fun alarm_wait :: "cint \<Rightarrow> wait_round list \<Rightarrow> cint run" where
  "alarm_wait alm_secs [] = Waiting"
| "alarm_wait alm_secs ((rc, errno, fs, junk) # rounds) =
    (if sint rc < 0 \<and> errno = EINTR then alarm_wait alm_secs rounds
     else (case alarm_is_alm_expired alm_secs fs junk of
         None \<Rightarrow> Undefined
       | Some expired \<Rightarrow> if expired = 0 then alarm_wait alm_secs rounds else Done rc))"

text \<open>The alarm device: whether it opens, the elapsed time, the answer to setting the alarm.\<close>

record alarm_dev =
  dev_open :: bool
  dev_get :: "cint \<times> timespec"
  dev_set :: "timespec \<Rightarrow> cint"
  dev_rounds :: "wait_round list"

definition alarm_set_reboot_time_and_wait :: "alarm_dev \<Rightarrow> cint \<Rightarrow> cint \<Rightarrow> cint run" where
  "alarm_set_reboot_time_and_wait D alm_secs secs =
    (if \<not> dev_open D then Done (- 1)
     else
       let (rc, ts) = dev_get D in
       if sint rc < 0 then Done (- 1)
       else
         let ts = ts\<lparr>tv_sec := tv_sec ts + secs, tv_nsec := 0\<rparr>; rc = dev_set D ts in
         if sint rc < 0 then Done (- 1)
         else (case alarm_wait alm_secs (dev_rounds D) of
             Done rc \<Rightarrow> if sint rc \<le> 0 then Done (- 1) else Done 0
           | Undefined \<Rightarrow> Undefined
           | Waiting \<Rightarrow> Waiting))"

section \<open>The thread\<close>

text \<open>The thread ends, or it calls \<open>android_reboot(cmd, flags, arg)\<close>.\<close>

datatype reboot_cmd = ANDROID_RB_RESTART2

datatype thread_end = Reboot reboot_cmd cint string | Exit

text \<open>\<open>fs1\<close> and \<open>fs2\<close> are the clock files at the two readings the thread starts with; \<open>alm0\<close> is the static
  variable \<open>alm_secs\<close> before.\<close>

definition alarm_thread :: "alarm_dev \<Rightarrow> clock_files \<Rightarrow> string \<Rightarrow> clock_files \<Rightarrow> string \<Rightarrow> cint \<Rightarrow> thread_end run" where
  "alarm_thread D fs1 junk1 fs2 junk2 alm0 =
    (case alarm_get_time fs1 junk1 ALARM_TIME of
       None \<Rightarrow> Undefined
     | Some (rc, stored) \<Rightarrow>
         let alm_secs = (case stored of Some secs \<Rightarrow> secs | None \<Rightarrow> alm0) in
         if sint rc < 0 \<or> alm_secs = 0 then Done Exit
         else (case alarm_get_time fs2 junk2 RTC_TIME of
             None \<Rightarrow> Undefined
           | Some (rc, None) \<Rightarrow> if sint rc < 0 then Done Exit else Undefined
           | Some (rc, Some rtc_secs) \<Rightarrow>
               if sint rc < 0 then Done Exit
               else
                 let rb_secs = alm_secs - rtc_secs in
                 if sint rb_secs \<le> 0 then Done Exit
                 else (case alarm_set_reboot_time_and_wait D alm_secs rb_secs of
                     Undefined \<Rightarrow> Undefined
                   | Waiting \<Rightarrow> Waiting
                   | Done rc \<Rightarrow> if sint rc < 0 then Done Exit else Done (Reboot ANDROID_RB_RESTART2 0 ''rtc''))))"

text \<open>\<open>power_off_alarm_init\<close> and \<open>healthd_board_init\<close>: whether the thread is started, from \<open>ro.bootmode\<close> and
  whether \<open>pthread_create\<close> succeeds.\<close>

definition power_off_alarm_init :: "string \<Rightarrow> bool \<Rightarrow> bool" where
  "power_off_alarm_init bootmode create_ok \<longleftrightarrow> bootmode = ''charger'' \<and> create_ok"

definition healthd_board_init :: "string \<Rightarrow> bool \<Rightarrow> bool" where
  "healthd_board_init bootmode create_ok = power_off_alarm_init bootmode create_ok"

definition healthd_board_battery_update :: cint where
  "healthd_board_battery_update = 1"

section \<open>The clock\<close>

text \<open>\<open>clock_reads fs ty t\<close>: the clock file reads as the number \<open>t\<close>.\<close>

definition clock_reads :: "clock_files \<Rightarrow> alarm_time_type \<Rightarrow> cint \<Rightarrow> bool" where
  "clock_reads fs ty t \<longleftrightarrow> fs (alarm_path ty) = Bytes (sprintf_d t)"

lemma get_time_shown: "clock_reads fs ty t \<Longrightarrow> alarm_get_time fs junk ty = Some (0, Some t)"
  using sprintf_fits [of t] by (simp add: alarm_get_time_def clock_reads_def Let_def strtol_sprintf)

definition in_range :: "cint \<Rightarrow> bool" where
  "in_range t \<longleftrightarrow> - 2147483646 \<le> sint t \<and> sint t \<le> 2147483645"

lemma expired_shown:
  assumes "clock_reads fs RTC_TIME t" "in_range t"
  shows "alarm_is_alm_expired alm fs junk = Some (if \<bar>sint alm - sint t\<bar> \<le> 2 then 1 else 0)"
proof -
  have "sint (t - 2) = sint t - 2" "sint (t + 2) = sint t + 2"
    using assms(2) by (simp_all add: in_range_def sint_word_ariths signed_take_bit_int_eq_self)
  with get_time_shown [OF assms(1)] show ?thesis by (auto simp: alarm_is_alm_expired_def ERR_SECS_def)
qed

text \<open>
  A round whose check finds the clock at \<open>t\<close>; it is idle when the wait was interrupted or the clock is more
  than two seconds away from the alarm.
\<close>

fun round_at :: "wait_round \<Rightarrow> cint \<Rightarrow> bool" where
  "round_at (rc, errno, fs, junk) t \<longleftrightarrow> clock_reads fs RTC_TIME t \<and> in_range t"

fun interrupted :: "wait_round \<Rightarrow> bool" where
  "interrupted (rc, errno, fs, junk) \<longleftrightarrow> sint rc < 0 \<and> errno = EINTR"

definition idle :: "cint \<Rightarrow> wait_round \<Rightarrow> bool" where
  "idle alm r \<longleftrightarrow> interrupted r \<or> (\<exists>t. round_at r t \<and> 2 < \<bar>sint alm - sint t\<bar>)"

lemma wait_idle: "idle alm r \<Longrightarrow> alarm_wait alm (r # rs) = alarm_wait alm rs"
  by (cases r) (auto simp: idle_def expired_shown)

lemma wait_idles: "\<forall>r\<in>set pre. idle alm r \<Longrightarrow> alarm_wait alm (pre @ rs) = alarm_wait alm rs"
  by (induction pre) (auto simp: wait_idle)

lemma wait_ends:
  assumes "round_at r t" "\<bar>sint alm - sint t\<bar> \<le> 2" "\<not> interrupted r"
  shows "alarm_wait alm (r # rs) = Done (fst r)"
  using assms by (cases r) (auto simp: expired_shown)


lemma thread_start:
  assumes "clock_reads fs1 ALARM_TIME alm" "clock_reads fs2 RTC_TIME now"
  shows "alarm_thread D fs1 junk1 fs2 junk2 alm0 =
    (if alm = 0 \<or> sint (alm - now) \<le> 0 then Done Exit
     else case alarm_set_reboot_time_and_wait D alm (alm - now) of
         Undefined \<Rightarrow> Undefined | Waiting \<Rightarrow> Waiting
       | Done rc \<Rightarrow> if sint rc < 0 then Done Exit else Done (Reboot ANDROID_RB_RESTART2 0 ''rtc''))"
  using assms by (simp add: alarm_thread_def get_time_shown)

definition device_ok :: "alarm_dev \<Rightarrow> bool" where
  "device_ok D \<longleftrightarrow> dev_open D \<and> 0 \<le> sint (fst (dev_get D)) \<and> (\<forall>ts. 0 \<le> sint (dev_set D ts))"

lemma device_wait:
  "device_ok D \<Longrightarrow> alarm_set_reboot_time_and_wait D alm secs =
    (case alarm_wait alm (dev_rounds D) of
       Done rc \<Rightarrow> if sint rc \<le> 0 then Done (- 1) else Done 0 | Undefined \<Rightarrow> Undefined | Waiting \<Rightarrow> Waiting)"
  by (auto simp: device_ok_def alarm_set_reboot_time_and_wait_def Let_def case_prod_beta not_less [symmetric])

section \<open>Results\<close>

text \<open>C29: the alarm thread reboots the phone when the alarm comes: with an alarm set in the future and a
  working device, after any number of rounds that were interrupted or found the clock away from the alarm,
  the first successful wait that finds the clock within two seconds of the alarm ends in a reboot.\<close>

theorem alarm_reboots:
  assumes "clock_reads fs1 ALARM_TIME alm" "clock_reads fs2 RTC_TIME now" "alm \<noteq> 0" "0 < sint (alm - now)"
    and "device_ok D" "dev_rounds D = pre @ r # post"
    and "\<forall>x\<in>set pre. idle alm x" "round_at r t" "\<bar>sint alm - sint t\<bar> \<le> 2" "0 < sint (fst r)"
  shows "alarm_thread D fs1 junk1 fs2 junk2 alm0 = Done (Reboot ANDROID_RB_RESTART2 0 ''rtc'')"
proof -
  have "\<not> interrupted r" using assms(10) by (cases r) auto
  with wait_idles [OF assms(7), of "r # post"] wait_ends [OF assms(8,9), of post]
  have "alarm_wait alm (dev_rounds D) = Done (fst r)" by (simp add: assms(6))
  with assms(3,4,10) show ?thesis by (simp add: thread_start [OF assms(1,2)] device_wait [OF assms(5)])
qed


text \<open>An alarm that is missed by more than two seconds is missed for good: when every check finds the
  clock past that window, the thread waits on whatever the device answers and never reboots.\<close>

theorem missed_alarm_waits_forever:
  assumes "clock_reads fs1 ALARM_TIME alm" "clock_reads fs2 RTC_TIME now" "alm \<noteq> 0" "0 < sint (alm - now)"
    and "device_ok D" "\<forall>r\<in>set (dev_rounds D). \<exists>t. round_at r t \<and> sint alm + 2 < sint t"
  shows "alarm_thread D fs1 junk1 fs2 junk2 alm0 = Waiting"
proof -
  have "\<forall>r\<in>set (dev_rounds D). idle alm r" using assms(6) by (fastforce simp: idle_def)
  from wait_idles [OF this, of "[]"] have "alarm_wait alm (dev_rounds D) = Waiting" by simp
  with assms(3,4) show ?thesis by (simp add: thread_start [OF assms(1,2)] device_wait [OF assms(5)])
qed

section \<open>Concrete runs\<close>

definition clock_at :: "cint \<Rightarrow> clock_files" where
  "clock_at t path = Bytes (sprintf_d (if path = RTC_WAKEALARM_PATH then 1000 else t))"

lemma clock_at [simp]: "clock_reads (clock_at t) ALARM_TIME 1000" "clock_reads (clock_at t) RTC_TIME t"
  by (simp_all add: clock_reads_def clock_at_def RTC_WAKEALARM_PATH_def RTC_EPOCH_PATH_def)

definition dev_with :: "wait_round list \<Rightarrow> alarm_dev" where
  "dev_with rs = \<lparr>dev_open = True, dev_get = (0, \<lparr>tv_sec = 5, tv_nsec = 7\<rparr>), dev_set = (\<lambda>_. 0), dev_rounds = rs\<rparr>"

lemma dev_with [simp]: "device_ok (dev_with rs)" "dev_rounds (dev_with rs) = rs"
  by (simp_all add: dev_with_def device_ok_def)

text \<open>An alarm at 1000, set at 900: an interrupted wait, a wake-up at 950, the alarm at 1001.\<close>

lemma alarm_reboots_witness:
  "alarm_thread (dev_with [(- 1, EINTR, clock_at 0, []), (1, 0, clock_at 950, []), (1, 0, clock_at 1001, [])])
     (clock_at 900) [] (clock_at 900) [] 0 = Done (Reboot ANDROID_RB_RESTART2 0 ''rtc'')"
proof -
  have i: "idle 1000 (- 1, EINTR, clock_at 0, [])" by (simp add: idle_def)
  have "round_at (1, 0, clock_at 950, []) 950" by (simp add: in_range_def)
  then have "idle 1000 (1, 0, clock_at 950, [])" unfolding idle_def by (intro disjI2 exI [of _ 950]) simp
  with i show ?thesis
    using alarm_reboots [of "clock_at 900" 1000 "clock_at 900" 900
      "dev_with [(- 1, EINTR, clock_at 0, []), (1, 0, clock_at 950, []), (1, 0, clock_at 1001, [])]"
      "[(- 1, EINTR, clock_at 0, []), (1, 0, clock_at 950, [])]" "(1, 0, clock_at 1001, [])" "[]" 1001 "[]" "[]" 0]
    by (simp add: in_range_def)
qed


lemma missed_alarm_waits_forever_witness:
  "alarm_thread (dev_with [(1, 0, clock_at 1003, []), (1, 0, clock_at 2000, [])])
     (clock_at 900) [] (clock_at 900) [] 0 = Waiting"
proof -
  have "round_at (1, 0, clock_at 1003, []) 1003" "round_at (1, 0, clock_at 2000, []) 2000"
    by (simp_all add: in_range_def)
  then have "\<forall>r\<in>set (dev_rounds (dev_with [(1, 0, clock_at 1003, []), (1, 0, clock_at 2000, [])])).
      \<exists>t. round_at r t \<and> sint (1000 :: cint) + 2 < sint t"
    by (auto simp del: round_at.simps intro: exI [of _ 1003] exI [of _ 2000])
  then show ?thesis
    using missed_alarm_waits_forever [of "clock_at 900" 1000 "clock_at 900" 900
      "dev_with [(1, 0, clock_at 1003, []), (1, 0, clock_at 2000, [])]" "[]" "[]" 0] by simp
qed

end
