(* ===== verification/Boot_Alarm.thy ===== *)
theory Boot_Alarm
  imports Init Healthd
begin

text \<open>
  The boot hook (theory \<open>Init\<close>) and the charger's alarm thread (theory \<open>Healthd\<close>) share the real-time clock's
  \<^verbatim>\<open>wakealarm\<close> file. Here they run one after the other on the same files, as \<open>init\<close> runs before the charger.
  \<^verbatim>\<open>wakealarm\<close> is no plain file but an attribute of the kernel's clock: what reading it shows and what writing it does
  is a parameter, with the behaviour documented for Linux as a named hypothesis.
\<close>

section \<open>The wake alarm of the kernel\<close>

text \<open>\<open>wa_show\<close>: the text that reading \<^verbatim>\<open>wakealarm\<close> gives, for an alarm set at a time or none; \<open>wa_store\<close>: the alarm after a
  text has been written.\<close>

record wakealarm =
  wa_show :: "cint option \<Rightarrow> string"
  wa_store :: "string \<Rightarrow> cint option"

text \<open>Documented: an alarm reads as its seconds since the epoch, a disabled alarm as the empty file, and writing 0
  disables it.\<close>

definition wakealarm_ok :: "wakealarm \<Rightarrow> bool" where
  "wakealarm_ok K \<longleftrightarrow> wa_show K None = [] \<and> (\<forall>t. 0 < sint t \<longrightarrow> wa_show K (Some t) = sprintf_d t) \<and>
    wa_store K (sprintf_d 0) = None"

section \<open>The phone\<close>

record phone =
  p_alarm :: "cint option"
  p_files :: "string \<Rightarrow> string"

definition phone_reads :: "wakealarm \<Rightarrow> phone \<Rightarrow> clock_files" where
  "phone_reads K d path = Bytes (if path = Init.RTC_WAKEALARM_PATH then wa_show K (p_alarm d) else p_files d path)"

definition phone_files :: "wakealarm \<Rightarrow> phone \<Rightarrow> files" where
  "phone_files K d = \<lparr>reads = phone_reads K d, writes = (\<lambda>_. All_written)\<rparr>"

fun phone_effect :: "wakealarm \<Rightarrow> effect \<Rightarrow> phone \<Rightarrow> phone" where
  "phone_effect K (Property_set name value) d = d"
| "phone_effect K (File_written path text) d =
    (if path = Init.RTC_WAKEALARM_PATH then d\<lparr>p_alarm := wa_store K text\<rparr> else d\<lparr>p_files := (p_files d)(path := text)\<rparr>)"

text \<open>The phone after \<open>vendor_load_properties\<close>, and whether that set \<open>ro.alarm_boot\<close>.\<close>

definition boot :: "wakealarm \<Rightarrow> phone \<Rightarrow> string \<Rightarrow> string \<Rightarrow> (bool \<times> phone) option" where
  "boot K d junk1 junk2 =
    map_option (\<lambda>es. (Property_set ''ro.alarm_boot'' ''true'' \<in> set es, fold (phone_effect K) es d))
      (vendor_load_properties (phone_files K d) junk1 junk2)"

text \<open>The alarm thread of a charger boot, both of whose readings find the files as the hook left them.\<close>

definition charge :: "wakealarm \<Rightarrow> alarm_dev \<Rightarrow> phone \<Rightarrow> string \<Rightarrow> string \<Rightarrow> cint \<Rightarrow> thread_end run" where
  "charge K D d junk1 junk2 alm0 = alarm_thread D (phone_reads K d) junk1 (phone_reads K d) junk2 alm0"

lemma paths_agree: "Healthd.RTC_WAKEALARM_PATH = Init.RTC_WAKEALARM_PATH"
  by (simp add: Healthd.RTC_WAKEALARM_PATH_def Init.RTC_WAKEALARM_PATH_def)

definition alarm_ok :: "cint option \<Rightarrow> bool" where
  "alarm_ok a \<longleftrightarrow> (case a of None \<Rightarrow> True | Some t \<Rightarrow> 0 < sint t)"

lemma read_alarm:
  assumes "wakealarm_ok K" "alarm_ok (p_alarm d)"
  shows "read_int (phone_files K d) junk Init.RTC_WAKEALARM_PATH 0 =
    Some (case p_alarm d of None \<Rightarrow> 0 | Some t \<Rightarrow> t)"
proof (cases "p_alarm d")
  case None
  with assms(1) show ?thesis by (simp add: read_int_empty phone_files_def phone_reads_def wakealarm_ok_def)
next
  case (Some t)
  with assms show ?thesis
    by (simp add: read_int_number [of _ _ t] phone_files_def phone_reads_def wakealarm_ok_def alarm_ok_def)
qed

lemma boot_result:
  assumes "wakealarm_ok K" "alarm_ok (p_alarm d)" "p_files d POWERUP_REASON_PATH = reason" "length reason \<le> 80"
  shows "boot K d junk1 junk2 = Some (reason = ''rtc'' \<or> p_alarm d \<noteq> None, if reason = ''rtc'' then d else d\<lparr>p_alarm := None\<rparr>)"
proof -
  have f: "reads (phone_files K d) POWERUP_REASON_PATH = Bytes reason"
    "writes (phone_files K d) Init.RTC_WAKEALARM_PATH = All_written"
    using assms(3) by (simp_all add: phone_files_def phone_reads_def)
  note run = bootinfo_effects [OF f(1) assms(4) read_alarm [OF assms(1,2)] f(2), of junk1]
  show ?thesis
  proof (cases "p_alarm d")
    case None
    then have "d\<lparr>p_alarm := None\<rparr> = d" by simp
    with None run show ?thesis by (simp add: boot_def)
  next
    case (Some t)
    with assms(2) have "t \<noteq> 0" by (auto simp: alarm_ok_def)
    with Some run assms(1) show ?thesis by (simp add: boot_def wakealarm_ok_def)
  qed
qed

text \<open>Reading the disabled alarm stores nothing in the array, so \<open>strtol\<close> parses what the stack held before.\<close>

lemma get_disabled_alarm:
  assumes "wakealarm_ok K" "p_alarm d = None"
  shows "alarm_get_time (phone_reads K d) junk ALARM_TIME =
    map_option (\<lambda>(secs, range_error). (if range_error then - 1 else 0, Some secs)) (strtol junk)"
  using assms by (auto simp: alarm_get_time_def phone_reads_def paths_agree wakealarm_ok_def split: option.splits)

lemma get_shown_alarm: "alarm_get_time (fs(Init.RTC_WAKEALARM_PATH := Bytes (sprintf_d v))) junk ALARM_TIME = Some (0, Some v)"
  by (rule get_time_shown) (simp add: clock_reads_def paths_agree)

lemma charge_disabled:
  assumes "wakealarm_ok K" "p_alarm d = None"
  shows "charge K D d junk1 junk2 alm0 =
    (case strtol junk1 of
       None \<Rightarrow> Undefined
     | Some (v, range_error) \<Rightarrow>
         if range_error \<or> v = 0 then Done Exit
         else alarm_thread D ((phone_reads K d)(Init.RTC_WAKEALARM_PATH := Bytes (sprintf_d v))) [] (phone_reads K d) junk2 alm0)"
  unfolding charge_def alarm_thread_def get_disabled_alarm [OF assms] get_shown_alarm by (auto split: option.splits)

section \<open>The hook and the thread together\<close>

text \<open>C32: the boot hook takes the alarm away from the alarm thread. On every boot whose power-up reason does not read
  \<open>rtc\<close> (a phone that was switched off and is plugged into a charger) the hook leaves the alarm disabled, whatever alarm
  was set, and sets \<open>ro.alarm_boot\<close> if there was one; when the reason reads \<open>rtc\<close> it sets the property and leaves the
  alarm alone. Reading a disabled alarm gives no bytes, so the thread that should wait for the alarm takes its time
  from what the stack held before: nothing is defined if that is no number with an end, the thread ends if it is 0 or too
  large, and otherwise the thread does what it would do if the alarm had been set to that number.\<close>

theorem boot_hook_disarms_alarm:
  assumes "wakealarm_ok K" "alarm_ok (p_alarm d)" "p_files d POWERUP_REASON_PATH = reason" "length reason \<le> 80"
  shows "\<exists>d'. boot K d junk1 junk2 = Some (reason = ''rtc'' \<or> p_alarm d \<noteq> None, d') \<and> p_files d' = p_files d \<and>
    (if reason = ''rtc'' then p_alarm d' = p_alarm d
     else p_alarm d' = None \<and>
       charge K D d' junk3 junk4 alm0 =
         (case strtol junk3 of
            None \<Rightarrow> Undefined
          | Some (v, range_error) \<Rightarrow>
              if range_error \<or> v = 0 then Done Exit
              else alarm_thread D ((phone_reads K d')(Init.RTC_WAKEALARM_PATH := Bytes (sprintf_d v))) []
                (phone_reads K d') junk4 alm0))"
proof -
  let ?d = "if reason = ''rtc'' then d else d\<lparr>p_alarm := None\<rparr>"
  from boot_result [OF assms, of junk1 junk2] charge_disabled [OF assms(1), of "d\<lparr>p_alarm := None\<rparr>"]
  show ?thesis by (intro exI [of _ ?d]) (simp del: fun_upd_apply)
qed

text \<open>The clock of Linux, and a phone plugged in at 900 with an alarm set at 1000.\<close>

definition linux_wakealarm :: wakealarm where
  "linux_wakealarm = \<lparr>wa_show = (\<lambda>a. case a of None \<Rightarrow> [] | Some t \<Rightarrow> sprintf_d t),
    wa_store = (\<lambda>text. case strtol text of Some (t, False) \<Rightarrow> if sint t \<le> 0 then None else Some t | _ \<Rightarrow> None)\<rparr>"

lemma linux_wakealarm: "wakealarm_ok linux_wakealarm"
  using strtol_sprintf [of 0 "[]"] by (simp add: wakealarm_ok_def linux_wakealarm_def)

definition plugged_in :: phone where
  "plugged_in = \<lparr>p_alarm = Some 1000,
    p_files = (\<lambda>path. if path = RTC_EPOCH_PATH then sprintf_d 900 else ''usb'')\<rparr>"

text \<open>Left alone, the alarm thread reboots the phone at 1000; after the hook it ends at once when the stack holds a 0.\<close>

lemma boot_hook_disarms_alarm_witness:
  "\<exists>d'. boot linux_wakealarm plugged_in [] [] = Some (True, d') \<and> p_alarm d' = None \<and>
    charge linux_wakealarm (dev_with [(1, 0, clock_at 1000, [])]) plugged_in [] [] 0 =
      Done (Reboot ANDROID_RB_RESTART2 0 ''rtc'') \<and>
    charge linux_wakealarm (dev_with [(1, 0, clock_at 1000, [])]) d' (sprintf_d 0) [] 0 = Done Exit"
proof -
  have p: "POWERUP_REASON_PATH \<noteq> RTC_EPOCH_PATH" "RTC_EPOCH_PATH \<noteq> Init.RTC_WAKEALARM_PATH"
    by (simp_all add: POWERUP_REASON_PATH_def RTC_EPOCH_PATH_def Init.RTC_WAKEALARM_PATH_def)
  have "round_at (1, 0, clock_at 1000, []) 1000" by (simp add: in_range_def)
  then have w: "alarm_wait 1000 [(1, 0, clock_at 1000, [])] = Done 1"
    using wait_ends [of "(1, 0, clock_at 1000, [])" 1000 1000 "[]"] by simp
  have "charge linux_wakealarm (dev_with [(1, 0, clock_at 1000, [])]) plugged_in [] [] 0 =
      Done (Reboot ANDROID_RB_RESTART2 0 ''rtc'')"
    unfolding charge_def
    by (subst thread_start [where alm = 1000 and now = 900])
       (use p in \<open>simp_all add: clock_reads_def phone_reads_def plugged_in_def linux_wakealarm_def paths_agree device_wait w
          del: alarm_wait.simps\<close>)
  moreover have "p_files plugged_in POWERUP_REASON_PATH = ''usb''" "p_alarm plugged_in = Some 1000"
    using p by (simp_all add: plugged_in_def)
  ultimately show ?thesis
    using boot_hook_disarms_alarm [OF linux_wakealarm, of plugged_in "''usb''" "[]" "[]" "dev_with [(1, 0, clock_at 1000, [])]"
      "sprintf_d 0" "[]" 0] strtol_sprintf [of 0 "[]"] by (auto simp: alarm_ok_def)
qed

end
