(* ===== verification/Spec2Isabelle.thy ===== *)
theory Spec2Isabelle
  imports Cond_Conc Weak_Memory Wait_Free Solo Once_Memory Statics Mutex_Timed Thread_Exit Tls Atomics Lights_Conc Hal Hw_Control Boot_Alarm
begin

text \<open>
  Verification of the native code in the device tree of the Xiaomi pisces (\<^verbatim>\<open>src/\<close>).

  \<^bold>\<open>The program.\<close> The tree holds five pieces of C and C++ and two Java classes, each plugged into Android at another
  place. They do not call each other; \<^verbatim>\<open>init\<close> and \<^verbatim>\<open>libhealthd\<close> share a file, the alarm register of the real-time
  clock, and \<^verbatim>\<open>vibrator.c\<close> and \<^verbatim>\<open>mkhw\<close> a system property, the intensity of the vibrator.

  \<^item> \<^verbatim>\<open>libp4hread\<close>: a copy of the C library's mutexes and condition variables with the old 16-bit owner
    layout, for vendor binaries built against it. A mutex or a condition variable is one 32-bit word that
    threads change with compare-and-swap, swap and atomic decrement, and on which they sleep through the
    kernel's futex. This is the core of the development. The file also carries, under \<^verbatim>\<open>#if 0\<close>, the cleanup
    handlers, \<open>pthread_exit\<close> and \<open>pthread_once\<close>; they are not compiled here, but modelled as the text has them.
  \<^item> \<^verbatim>\<open>liblights\<close>: the lights module, brightness and the three sources that compete for one LED.
  \<^item> \<^verbatim>\<open>vibrator.c\<close>: a session with the vendor's vibration library, loaded on demand.
  \<^item> \<^verbatim>\<open>init\<close>: the boot hook that recognises a boot caused by the alarm clock.
  \<^item> \<^verbatim>\<open>libhealthd\<close>: the thread that waits for the alarm while the phone charges switched off.
  \<^item> \<^verbatim>\<open>mkhw\<close>: the Java classes through which Settings sets the intensity of the vibrator and the sensitivity of the
    touch screen.

  \<^bold>\<open>The theories.\<close>

  \<^item> \<open>Prelude\<close>: C types, errno values, 32-bit words as unsigned and signed numbers.
  \<^item> \<open>Mutex_Word\<close>: the bit-field macros of \<^verbatim>\<open>pthread.c\<close>, one definition each, and \<open>enc\<close>, the word as a number
    put together from its five fields; the collection \<open>enc_simps\<close> says what every macro computes on it.
  \<^item> \<open>Prog\<close>: the functions of \<^verbatim>\<open>pthread.c\<close> are trees of accesses to shared memory, kernel calls and jumps to
    loop heads, because every access is a point at which another thread can intervene.
  \<^item> \<open>Mutex\<close>, \<open>Cond\<close>: the functions themselves, in the order of the file; \<open>Threads\<close>: the loop bodies and \<open>exec\<close>,
    which runs one call alone in an environment that is a parameter (clock, futex calls). Fuel counts the
    accesses; every theorem that uses it names a number that is enough and proves the result, not only
    partial correctness.
  \<^item> \<open>Mutex_Spec\<close>, \<open>Mutex_Timed\<close>: an abstract mutex (kind, sharing, holder, depth, waiters) and the refinement
    of the calls to its operations. \<open>Mutex_Calls\<close>: sequences of calls by one thread. \<open>Timespec\<close>: the 32-bit time
    computations against exact nanoseconds. \<open>Cond_Spec\<close>: condition variables, one caller at a time. A run alone names what
    it uses of the kernel: waits without a timeout (\<open>quiet_kernel\<close>), waits of exactly the time left (\<open>waits_return\<close>,
    \<open>times_out\<close>); the timed lock takes four steps for each of the \<open>n\<close> waits it makes before the clock passes its
    deadline, so \<open>16 + 4 * n\<close> steps are enough.
  \<^item> \<open>Atomics\<close>: the exclusive-load loops of \<^verbatim>\<open>bionic_atomic_arm.h\<close>; the locale \<open>exclusive_loop\<close>, interpreted on
    all three, shows that they act at one moment, as \<open>Prog\<close> assumes of its atomic accesses.
  \<^item> \<open>Statics\<close>: the static initialisers of \<^verbatim>\<open>pthread.h\<close> and the lock macros of \<^verbatim>\<open>thread_private.h\<close>.
  \<^item> \<open>Futex\<close>: the two futex wrappers of \<^verbatim>\<open>pthread.c\<close>, which choose between the kernel's shared and private queues, and
    the kernel as a parameter; its documented contract is the locale \<open>futex_kernel\<close>, extended by \<open>full_futex_kernel\<close>.
  \<^item> \<open>Interleave\<close>: any number of threads, each calling the functions of one mutex and
    of condition variables used with it, as the step relation \<open>sys_step\<close> with one step per
    access (\<open>thread_step\<close> are those of one thread, \<open>quiet_step\<close> those that leave memory alone). \<open>Protocol\<close>:
    ghost owners, a predicate \<open>wp\<close> over the program trees that accounts for interference, and
    the locale \<open>verified_calls\<close>, which turns verified loops and entry points into an invariant
    of the system. \<open>Mutex_Conc\<close>: the verification conditions for the three kinds of mutex, the
    interpretations, mutual exclusion, the absence of lost wake-ups, and that sleepers and wake-ups of a mutex
    meet in one futex queue. \<open>Schedules\<close>: concrete
    runs, among them one in which the timed lock loses a wake-up.
  \<^item> \<open>Wait_Free\<close>: unlocking, trying to lock and locking again return after at most eight own steps under every
    interference, because all that others can do to a held word is mark it contended, once. The number of steps is
    part of the predicate \<open>within\<close>, proved for each call. \<open>Solo\<close>: a call run by \<open>exec\<close> is a schedule of the
    system in which only one thread moves and stays inside the call, so the refinement results hold in the states
    interleaving leads to; a call that makes no system call has only one such schedule.
  \<^item> \<open>Cond_Conc\<close>: condition variables under interleaving. A pulse owes a wake-up from its compare-and-swap to
    its futex call; with the locale \<open>cond_clients\<close>, interpreted once for signals and once for clients that only
    broadcast, every signal wakes a waiter and nobody who waited before a broadcast sleeps on.
  \<^item> \<open>Once\<close>: \<open>pthread_once\<close> as a step relation over the same kernel; the invariant \<open>once_ok\<close> ties the control word
    to the phases of the one initialisation.
  \<^item> \<open>Views\<close>, \<open>Barriers\<close>, \<open>Weak_Memory\<close>, \<open>Once_Memory\<close>: the memory barriers. Data words have a history of writes, every thread a
    view of it that grows only through the accesses to the lock word and \<open>ANDROID_MEMBAR_FULL\<close>. The lock word has a history
    too, and a plain load of it may return an old value. The predicate \<open>fenced\<close> (\<open>Barriers\<close>) and
    the locale \<open>fenced_calls\<close>, which extends \<open>verified_calls\<close>, show that mutual exclusion survives the stale loads and that a
    holder of a mutex reads the last values written under it; \<open>Once_Memory\<close> shows the same of the callers of
    \<open>pthread_once\<close> and the initialised data.
  \<^item> \<open>Thread_Exit\<close>: the cleanup handlers as a linked list on a heap and the order of the steps of
    \<open>pthread_exit\<close>; the loop over the handlers is a \<open>partial_function\<close>, and the theorems show that it ends.
    \<open>Tls\<close>: the slots of \<^verbatim>\<open>bionic_tls.h\<close>.
  \<^item> \<open>CLib\<close>: \<open>sprintf("%d\n")\<close> and \<open>strtol\<close>. \<open>Lights\<close> and
    \<open>Lights_Spec\<close>, \<open>Vibrator\<close>, \<open>Init\<close>, \<open>Healthd\<close>: the other four
    pieces. Their static variables are records; files, drivers and the vendor library are parameters that may answer
    differently at every call; results that C leaves undefined are \<open>None\<close> or \<open>Undefined\<close>.
    \<open>Lights_Conc\<close>: the light handlers as scripts of single accesses run by many threads under
    \<open>g_lock\<close>. \<open>Hal\<close>: the module descriptor of the lights and the inline functions of
    \<^verbatim>\<open>nfc.h\<close>, with the contract of a hardware module as the locale \<open>hal\<close>.
    \<open>Boot_Alarm\<close>: the boot hook and the alarm thread on the same files, the kernel's wake alarm among them. \<open>Hw_Control\<close>: the Java classes; the property
    service is the locale \<open>properties\<close>, and the intensity chosen in Settings is followed to the vendor library.

  \<^bold>\<open>What is assumed.\<close> The stores and the atomic operations of all threads on one word have one order, and no thread
  reads a value older than what it has read or written itself. In \<open>Interleave\<close>, on which the results on wake-ups
  and on the number of steps rest, a load returns the present value; in \<open>Weak_Memory\<close> and \<open>Once_Memory\<close> it may
  return an old one, a load of a condition variable any value, and other data, written by holders of the mutex or by the
  initialisation, is seen out of order as far as the barriers allow. The kernel's
  thread ids are between 1 and 65535 where \<open>valid_tid\<close> is assumed, as the comment in
  \<^verbatim>\<open>pthread.c\<close> states, and \<open>wide_tid_never_owner\<close> shows what happens
  otherwise; a normal mutex is unlocked only by a thread that holds it (\<open>client_ok\<close>). The results
  on wake-ups also assume the futex contract; \<open>boot_hook_disarms_alarm\<close> what is documented of the kernel's wake alarm (a
  disabled alarm reads as an empty file, writing 0 disables it); the results on the Java classes what the property service and
  \<open>FileUtils\<close> are documented to do. \<open>long\<close> and \<open>time_t\<close> have 32 bits.

  \<^bold>\<open>What is not modelled.\<close> The hooks under \<^verbatim>\<open>PTHREAD_DEBUG\<close>; the
  prototypes and renaming macros of \<^verbatim>\<open>pthread.h\<close> and the private headers, among them
  read-write locks and thread creation, which have no bodies in the tree; the event and status codes and the
  method tables of \<^verbatim>\<open>nfc.h\<close>, which no code of the tree uses; log output;
  \<open>p4hread_self\<close>, which only calls \<open>pthread_self\<close>; and the build files, shell scripts,
  patches and configuration of the tree.
\<close>

end
